theory Spec2Isabelle
  imports Main "HOL-Library.Sublist"
begin

section \<open>Python values used by \<^verbatim>\<open>TXT_to_CSV_script.py\<close>\<close>

text \<open>
  A Python \<^verbatim>\<open>str\<close> is modelled as a \<^typ>\<open>string\<close> whose characters stand for the code
  points U+0000 to U+00FF. On this range the library functions the script calls are
  modelled as CPython defines them: \<^verbatim>\<open>str.isspace\<close> (and the class \<^verbatim>\<open>\s\<close>) holds for
  twelve code points, \<^verbatim>\<open>int()\<close> accepts the ASCII digits only, and \<^verbatim>\<open>str.lower\<close> moves
  \<^verbatim>\<open>A-Z\<close> and the Latin-1 capitals by 32. The limit on the number of digits that
  \<^verbatim>\<open>int()\<close> converts (4300 by default from Python 3.11 on, absent before) is not
  modelled.

  Exceptions are values: a function that can raise returns \<open>py_exception + 'a\<close>.
\<close>

datatype py_exception =
  ValueError | OverflowError | AttributeError | TypeError | IndexError | KeyError
  | EOFError | OSError | PatternError | SystemExit

definition NULL :: string where
  "NULL = [CHR 0x5C, CHR ''N'']"

definition COMMON_SEPARATORS :: "string list" where
  "COMMON_SEPARATORS = [''|'', '','', '';'', [CHR 0x09]]"

subsection \<open>\<^verbatim>\<open>str.strip\<close>, \<^verbatim>\<open>str.split\<close>, \<^verbatim>\<open>str.lower\<close>, \<^verbatim>\<open>str.count\<close>\<close>

definition isspace :: "char \<Rightarrow> bool" where
  "isspace c \<longleftrightarrow> c \<in> set [CHR 0x09, CHR 0x0A, CHR 0x0B, CHR 0x0C, CHR 0x0D,
      CHR 0x1C, CHR 0x1D, CHR 0x1E, CHR 0x1F, CHR 0x20, CHR 0x85, CHR 0xA0]"

definition lstrip :: "string \<Rightarrow> string" where
  "lstrip s = dropWhile isspace s"

definition rstrip :: "string \<Rightarrow> string" where
  "rstrip s = rev (dropWhile isspace (rev s))"

definition strip :: "string \<Rightarrow> string" where
  "strip s = rstrip (lstrip s)"

text \<open>\<^verbatim>\<open>line.rstrip('\n')\<close>: every trailing line feed goes, nothing else.\<close>

definition rstrip_nl :: "string \<Rightarrow> string" where
  "rstrip_nl s = rev (dropWhile (\<lambda>c. c = CHR 0x0A) (rev s))"

text \<open>
  \<^verbatim>\<open>s.split(sep)\<close> for a one-character separator: a cut at every occurrence, empty
  pieces kept, so the result has one piece more than there are separators.
\<close>

fun split_from :: "char \<Rightarrow> string \<Rightarrow> string \<Rightarrow> string list" where
  "split_from sep cur [] = [rev cur]"
| "split_from sep cur (c # cs) =
     (if c = sep then rev cur # split_from sep [] cs else split_from sep (c # cur) cs)"

definition split :: "string \<Rightarrow> char \<Rightarrow> string list" where
  "split s sep = split_from sep [] s"

definition lower_char :: "char \<Rightarrow> char" where
  "lower_char c =
     (let n = (of_char c :: nat) in
      if (65 \<le> n \<and> n \<le> 90) \<or> (192 \<le> n \<and> n \<le> 222 \<and> n \<noteq> 215)
      then char_of (n + 32) else c)"

definition lower :: "string \<Rightarrow> string" where
  "lower s = map lower_char s"

text \<open>
  \<^verbatim>\<open>s.count(sub)\<close>: the occurrences of \<open>sub\<close> found from the left without overlap;
  for the empty \<open>sub\<close> that is one more than the length.
\<close>

fun count_from :: "string \<Rightarrow> nat \<Rightarrow> string \<Rightarrow> nat" where
  "count_from sub skip [] = 0"
| "count_from sub skip (c # cs) =
     (if skip = 0 \<and> prefix sub (c # cs)
      then Suc (count_from sub (length sub - 1) cs)
      else count_from sub (skip - 1) cs)"

definition count :: "string \<Rightarrow> string \<Rightarrow> nat" where
  "count s sub = (if sub = [] then Suc (length s) else count_from sub 0 s)"

subsection \<open>\<^verbatim>\<open>int(str)\<close>\<close>

definition digit_val :: "char \<Rightarrow> nat option" where
  "digit_val c =
     map_of [(CHR ''0'', 0), (CHR ''1'', 1), (CHR ''2'', 2), (CHR ''3'', 3), (CHR ''4'', 4),
             (CHR ''5'', 5), (CHR ''6'', 6), (CHR ''7'', 7), (CHR ''8'', 8), (CHR ''9'', 9)] c"

definition isdigit :: "char \<Rightarrow> bool" where
  "isdigit c \<longleftrightarrow> digit_val c \<noteq> None"

text \<open>Most significant digit first; the accumulator is the value read so far.\<close>

fun digits_value :: "nat \<Rightarrow> string \<Rightarrow> nat" where
  "digits_value acc [] = acc"
| "digits_value acc (c # cs) = digits_value (10 * acc + the (digit_val c)) cs"

text \<open>
  The white space \<^verbatim>\<open>int()\<close> skips at both ends: the ASCII space characters of C, and
  the two Latin-1 spaces, which the conversion first rewrites to a blank. The
  separators U+001C to U+001F are white space for \<^verbatim>\<open>str.strip\<close> but not here.
\<close>

definition int_space :: "char \<Rightarrow> bool" where
  "int_space c \<longleftrightarrow> c \<in> set [CHR 0x09, CHR 0x0A, CHR 0x0B, CHR 0x0C, CHR 0x0D,
      CHR 0x20, CHR 0x85, CHR 0xA0]"

fun double_underscore :: "string \<Rightarrow> bool" where
  "double_underscore (a # b # cs) =
     ((a = CHR ''_'' \<and> b = CHR ''_'') \<or> double_underscore (b # cs))"
| "double_underscore cs = False"

text \<open>
  Base 10: optional white space, one optional sign, digits with single underscores
  between them, optional white space, and nothing else.
\<close>

definition py_int :: "string \<Rightarrow> py_exception + int" where
  "py_int s =
     (let t = dropWhile int_space s;
          neg = (t \<noteq> [] \<and> hd t = CHR ''-'');
          u = (if t \<noteq> [] \<and> (hd t = CHR ''-'' \<or> hd t = CHR ''+'') then tl t else t);
          body = takeWhile (\<lambda>c. isdigit c \<or> c = CHR ''_'') u;
          rest = dropWhile (\<lambda>c. isdigit c \<or> c = CHR ''_'') u
      in if body = [] \<or> hd body = CHR ''_'' \<or> last body = CHR ''_''
            \<or> double_underscore body \<or> \<not> list_all int_space rest
         then Inl ValueError
         else let v = int (digits_value 0 (filter isdigit body))
              in Inr (if neg then - v else v))"

subsection \<open>\<^verbatim>\<open>datetime.date\<close>\<close>

record date =
  year :: nat
  month :: nat
  day :: nat

definition is_leap :: "int \<Rightarrow> bool" where
  "is_leap y \<longleftrightarrow> y mod 4 = 0 \<and> (y mod 100 \<noteq> 0 \<or> y mod 400 = 0)"

definition DAYS_IN_MONTH :: "int list" where
  "DAYS_IN_MONTH = [0, 31, 28, 31, 30, 31, 30, 31, 31, 30, 31, 30, 31]"

text \<open>Called with a month from 1 to 12 only.\<close>

definition days_in_month :: "int \<Rightarrow> int \<Rightarrow> int" where
  "days_in_month y m =
     (if m = 2 \<and> is_leap y then 29 else DAYS_IN_MONTH ! nat m)"

definition fits_c_int :: "int \<Rightarrow> bool" where
  "fits_c_int v \<longleftrightarrow> - 2147483648 \<le> v \<and> v \<le> 2147483647"

text \<open>
  \<^verbatim>\<open>date(year, month, day)\<close>: the three arguments are converted to C integers, then
  the year, the month and the day are checked in this order.
\<close>

definition py_date :: "int \<Rightarrow> int \<Rightarrow> int \<Rightarrow> py_exception + date" where
  "py_date y m d =
     (if \<not> (fits_c_int y \<and> fits_c_int m \<and> fits_c_int d) then Inl OverflowError
      else if y < 1 \<or> 9999 < y then Inl ValueError
      else if m < 1 \<or> 12 < m then Inl ValueError
      else if d < 1 \<or> days_in_month y m < d then Inl ValueError
      else Inr \<lparr>year = nat y, month = nat m, day = nat d\<rparr>)"

definition digit_char :: "nat \<Rightarrow> char" where
  "digit_char d =
     (if d = 0 then CHR ''0'' else if d = 1 then CHR ''1''
      else if d = 2 then CHR ''2'' else if d = 3 then CHR ''3''
      else if d = 4 then CHR ''4'' else if d = 5 then CHR ''5''
      else if d = 6 then CHR ''6'' else if d = 7 then CHR ''7''
      else if d = 8 then CHR ''8'' else CHR ''9'')"

fun decimal :: "nat \<Rightarrow> string" where
  "decimal n =
     (if n < 10 then [digit_char n] else decimal (n div 10) @ [digit_char (n mod 10)])"

declare decimal.simps [simp del]

text \<open>\<^verbatim>\<open>'%0wd' % n\<close> for \<open>n \<ge> 0\<close>: the decimal digits, zero-filled on the left to width \<open>w\<close>.\<close>

definition zero_filled :: "nat \<Rightarrow> nat \<Rightarrow> string" where
  "zero_filled w n = replicate (w - length (decimal n)) CHR ''0'' @ decimal n"

definition isoformat :: "date \<Rightarrow> string" where
  "isoformat dt =
     zero_filled 4 (year dt) @ ''-'' @ zero_filled 2 (month dt) @ ''-'' @ zero_filled 2 (day dt)"

section \<open>The date normalizer \<^verbatim>\<open>_safe_iso\<close>\<close>

text \<open>\<^verbatim>\<open>d, m, y = parts\<close> raises unless there are exactly three parts.\<close>

definition unpack3 :: "'a list \<Rightarrow> py_exception + ('a \<times> 'a \<times> 'a)" where
  "unpack3 xs = (case xs of [d, m, y] \<Rightarrow> Inr (d, m, y) | _ \<Rightarrow> Inl ValueError)"

definition bind :: "py_exception + 'a \<Rightarrow> ('a \<Rightarrow> py_exception + 'b) \<Rightarrow> py_exception + 'b" where
  "bind r f = (case r of Inl e \<Rightarrow> Inl e | Inr v \<Rightarrow> f v)"

text \<open>
  The body of the \<^verbatim>\<open>try\<close>: \<open>Inl\<close> is an exception raised in it, \<open>Inr (Some s)\<close> the
  \<^verbatim>\<open>return\<close> inside it, \<open>Inr None\<close> falling out of it when the year has not four
  characters. The arguments \<^verbatim>\<open>int(y), int(m), int(d)\<close> are evaluated left to right.
\<close>

definition safe_iso_try :: "string \<Rightarrow> py_exception + string option" where
  "safe_iso_try raw =
     bind (unpack3 (split raw CHR ''.'')) (\<lambda>(d, m, y).
       if length y = 4
       then bind (py_int y) (\<lambda>yi. bind (py_int m) (\<lambda>mi. bind (py_int d) (\<lambda>di.
              bind (py_date yi mi di) (\<lambda>dt. Inr (Some (isoformat dt))))))
       else Inr None)"

text \<open>
  \<^verbatim>\<open>except Exception: pass\<close> catches every exception of the model but \<open>SystemExit\<close>,
  which is no \<^verbatim>\<open>Exception\<close> and would pass through; control then reaches
  \<^verbatim>\<open>return NULL\<close>.
\<close>

definition safe_iso :: "string \<Rightarrow> py_exception + string" where
  "safe_iso raw0 =
     (let raw = strip raw0
      in case safe_iso_try raw of
           Inr (Some s) \<Rightarrow> Inr s
         | Inr None \<Rightarrow> Inr NULL
         | Inl e \<Rightarrow> (if e = SystemExit then Inl e else Inr NULL))"

section \<open>The separator detector \<^verbatim>\<open>_guess_separator\<close>\<close>

text \<open>
  \<^verbatim>\<open>max(items, key=...)\<close> keeps the first item whose key is largest: a later item
  replaces the best one only when its key is strictly greater.
\<close>

fun max_from :: "('a \<Rightarrow> nat) \<Rightarrow> 'a \<Rightarrow> 'a list \<Rightarrow> 'a" where
  "max_from key best [] = best"
| "max_from key best (x # xs) = max_from key (if key best < key x then x else best) xs"

definition py_max :: "('a \<Rightarrow> nat) \<Rightarrow> 'a list \<Rightarrow> py_exception + 'a" where
  "py_max key xs = (case xs of [] \<Rightarrow> Inl ValueError | x # rest \<Rightarrow> Inr (max_from key x rest))"

text \<open>
  The dictionary \<^verbatim>\<open>counts\<close> keeps its keys in insertion order, the order of
  \<^verbatim>\<open>COMMON_SEPARATORS\<close>, whose entries are distinct: an association list. The test
  \<^verbatim>\<open>sep != '\\t'\<close> compares with the two characters backslash and \<^verbatim>\<open>t\<close>.
\<close>

definition counts :: "string \<Rightarrow> (string \<times> nat) list" where
  "counts first_line =
     map (\<lambda>sep. (sep, count first_line (if sep \<noteq> [CHR 0x5C, CHR ''t''] then sep else [CHR 0x09])))
       COMMON_SEPARATORS"

definition guess_separator :: "string \<Rightarrow> py_exception + string" where
  "guess_separator first_line = bind (py_max snd (counts first_line)) (\<lambda>best. Inr (fst best))"

section \<open>The record transformer \<^verbatim>\<open>_process\<close>\<close>

text \<open>
  A compiled pattern is used through its \<^verbatim>\<open>split\<close> method only, so it is modelled as
  that method. The list \<^verbatim>\<open>split\<close> returns holds the pieces between the matches and,
  when the expression has capturing groups, what each group captured, which is
  \<^verbatim>\<open>None\<close> for a group that took no part in the match.
\<close>

type_synonym pattern = "string \<Rightarrow> string option list"

text \<open>
  \<^verbatim>\<open>re.compile(r'\s*C\s*').split\<close> for one literal character \<open>C\<close> that is not white
  space, which is the pattern built from the suggestions \<^verbatim>\<open>\|\<close>, \<^verbatim>\<open>,\<close> and \<^verbatim>\<open>;\<close>. The
  leftmost match starts at the first position from which white space and then \<open>C\<close>
  follow; it takes the white space after \<open>C\<close> too.
\<close>

function split_ws_literal_from :: "char \<Rightarrow> string \<Rightarrow> string \<Rightarrow> string list" where
  "split_ws_literal_from c cur [] = [rev cur]"
| "split_ws_literal_from c cur (x # xs) =
     (case dropWhile isspace (x # xs) of
        [] \<Rightarrow> split_ws_literal_from c (x # cur) xs
      | y # ys \<Rightarrow>
          if y = c then rev cur # split_ws_literal_from c [] (dropWhile isspace ys)
          else split_ws_literal_from c (x # cur) xs)"
  by pat_completeness auto
termination
proof (relation "measure (\<lambda>(c, cur, s). length s)")
  fix c :: char and cur :: string and x :: char and xs :: string and y :: char and ys :: string
  assume a: "dropWhile isspace (x # xs) = y # ys" and "y = c"
  have "length (y # ys) \<le> length (x # xs)"
    using length_dropWhile_le[of isspace "x # xs"] a by simp
  moreover have "length (dropWhile isspace ys) \<le> length ys"
    by (rule length_dropWhile_le)
  ultimately show "((c, [], dropWhile isspace ys), (c, cur, x # xs)) \<in> measure (\<lambda>(c, cur, s). length s)"
    by simp
qed simp_all

definition split_ws_literal :: "char \<Rightarrow> pattern" where
  "split_ws_literal c s = map Some (split_ws_literal_from c [] s)"

text \<open>
  \<^verbatim>\<open>date_idx\<close> is a set of positions; the loop over it writes a different position at
  each step, so the order of the visit is immaterial. The model visits ascending.
\<close>

definition date_idx :: "string list \<Rightarrow> nat list" where
  "date_idx columns =
     filter (\<lambda>i. lower (columns ! i) \<in> {''birthday'', ''date''}) [0..<length columns]"

text \<open>
  A list comprehension evaluates its element expression from left to right and
  stops at the first exception.
\<close>

fun comprehend :: "('a \<Rightarrow> py_exception + 'b) \<Rightarrow> 'a list \<Rightarrow> py_exception + 'b list" where
  "comprehend f [] = Inr []"
| "comprehend f (x # xs) = bind (f x) (\<lambda>v. bind (comprehend f xs) (\<lambda>vs. Inr (v # vs)))"

text \<open>\<^verbatim>\<open>f.strip() if f.strip() else NULL\<close>; \<^verbatim>\<open>None\<close> has no \<^verbatim>\<open>strip\<close>.\<close>

definition null_if_empty :: "string option \<Rightarrow> py_exception + string" where
  "null_if_empty f =
     (case f of
        None \<Rightarrow> Inl AttributeError
      | Some s \<Rightarrow> Inr (if strip s \<noteq> [] then strip s else NULL))"

text \<open>
  \<^verbatim>\<open>for idx in date_idx: fields[idx] = _safe_iso(fields[idx])\<close>, the list \<^verbatim>\<open>fields\<close>
  being \<open>flds\<close> here.
\<close>

fun normalize_dates :: "nat list \<Rightarrow> string list \<Rightarrow> py_exception + string list" where
  "normalize_dates [] flds = Inr flds"
| "normalize_dates (idx # rest) flds =
     (if idx < length flds
      then bind (safe_iso (flds ! idx)) (\<lambda>v. normalize_dates rest (flds[idx := v]))
      else Inl IndexError)"

text \<open>The body of the loop, lines 99 to 103: the record written for one line.\<close>

definition record_of_line :: "pattern \<Rightarrow> string list \<Rightarrow> string \<Rightarrow> py_exception + string list" where
  "record_of_line sep_regex columns line =
     (let flds = sep_regex (rstrip_nl line);
          flds = take (length columns) (flds @ replicate (length columns) (Some []))
      in bind (comprehend null_if_empty flds) (normalize_dates (date_idx columns)))"

text \<open>
  The output file is the list of the rows handed to \<^verbatim>\<open>csv.writer.writerow\<close>, in the
  order of the calls. A run of the loop ends with the lines or with the first
  exception; the rows written until then stay written.
\<close>

record csv_run =
  rows :: "string list list"
  raised :: "py_exception option"

fun process_lines :: "pattern \<Rightarrow> string list \<Rightarrow> string list \<Rightarrow> string list list \<Rightarrow> csv_run" where
  "process_lines sep_regex columns [] out = \<lparr>rows = out, raised = None\<rparr>"
| "process_lines sep_regex columns (line # rest) out =
     (case record_of_line sep_regex columns line of
        Inl e \<Rightarrow> \<lparr>rows = out, raised = Some e\<rparr>
      | Inr flds \<Rightarrow> process_lines sep_regex columns rest (out @ [flds]))"

text \<open>
  \<^verbatim>\<open>_process\<close> on the lines the source file yields. The header is written first. Then
  the progress bar is entered: with the \<^verbatim>\<open>tqdm\<close> package it is a context manager;
  without it the script's own replacement (lines 20 to 23) returns a \<^verbatim>\<open>range\<close>, which
  the \<^verbatim>\<open>with\<close> statement rejects (\<^verbatim>\<open>TypeError\<close> from Python 3.11 on, \<^verbatim>\<open>AttributeError\<close>
  before). The progress updates themselves change nothing that is modelled.
\<close>

definition process :: "bool \<Rightarrow> pattern \<Rightarrow> string list \<Rightarrow> string list \<Rightarrow> csv_run" where
  "process tqdm_installed sep_regex columns lines =
     (let out = [columns]
      in if tqdm_installed then process_lines sep_regex columns lines out
         else \<lparr>rows = out, raised = Some TypeError\<rparr>)"

section \<open>The run \<^verbatim>\<open>main\<close>\<close>

text \<open>
  What the run reads from outside: whether \<^verbatim>\<open>tqdm\<close> can be imported, which paths are
  files and the lines they hold, what a download gives, what \<^verbatim>\<open>re.compile\<close> makes of an
  expression, and the lines typed at the prompts (\<^verbatim>\<open>input()\<close> raises \<^verbatim>\<open>EOFError\<close> when
  there is none left).
\<close>

record world =
  tqdm_installed :: bool
  is_file :: "string \<Rightarrow> bool"
  file_lines :: "string \<Rightarrow> string list"
  urlopen :: "string \<Rightarrow> py_exception + string list"
  re_compile :: "string \<Rightarrow> py_exception + pattern"
  stdin :: "string list"

text \<open>
  What a run leaves behind: the exception that ended it, if any; whether a temporary
  file made by \<^verbatim>\<open>_get_source\<close> exists; the rows of the destination file, if it was
  opened; how many times \<^verbatim>\<open>re.compile\<close> was called.
\<close>

record run =
  exception :: "py_exception option"
  temp_exists :: bool
  written :: "string list list option"
  compiled :: nat

text \<open>\<^verbatim>\<open>_ask\<close> with its \<^verbatim>\<open>default\<close>: the answer and the lines of input left.\<close>

fun ask :: "string option \<Rightarrow> string list \<Rightarrow> (py_exception + string) \<times> string list" where
  "ask dflt [] = (Inl EOFError, [])"
| "ask dflt (l # ls) =
     (let v = strip l
      in if v \<noteq> [] then (Inr v, ls)
         else (case dflt of Some d \<Rightarrow> (Inr d, ls) | None \<Rightarrow> ask dflt ls))"

text \<open>
  \<^verbatim>\<open>_get_source\<close>: the lines of the source and whether it is a temporary copy, whose
  \<^verbatim>\<open>cleanup\<close> unlinks it; the second component tells whether a temporary file exists
  when the function is left. The temporary file is created before the download starts.
\<close>

record source =
  src_lines :: "string list"
  temporary :: bool

definition get_source :: "world \<Rightarrow> string \<Rightarrow> (py_exception + source) \<times> bool" where
  "get_source w path_or_url =
     (if is_file w path_or_url
      then (Inr \<lparr>src_lines = file_lines w path_or_url, temporary = False\<rparr>, False)
      else if prefix ''http://'' path_or_url \<or> prefix ''https://'' path_or_url
      then (case urlopen w path_or_url of
              Inl e \<Rightarrow> (Inl e, True)
            | Inr body \<Rightarrow> (Inr \<lparr>src_lines = body, temporary = True\<rparr>, True))
      else (Inl SystemExit, False))"

definition readline :: "string list \<Rightarrow> string" where
  "readline ls = (case ls of [] \<Rightarrow> [] | l # _ \<Rightarrow> l)"

definition human_suggest :: "string \<Rightarrow> py_exception + string" where
  "human_suggest suggested =
     (if suggested = ''|'' then Inr [CHR 0x5C, CHR ''|'']
      else if suggested = '','' then Inr '',''
      else if suggested = '';'' then Inr '';''
      else if suggested = [CHR 0x09] then Inr [CHR 0x5C, CHR ''t'']
      else Inl KeyError)"

definition parse_columns :: "string \<Rightarrow> string list" where
  "parse_columns cols_raw = map strip (filter (\<lambda>c. strip c \<noteq> []) (split cols_raw CHR '',''))"

text \<open>The expression handed to \<^verbatim>\<open>re.compile\<close>: \<^verbatim>\<open>rf'\s*{sep_raw}\s*'\<close>.\<close>

definition separator_expression :: "string \<Rightarrow> string" where
  "separator_expression sep_raw =
     [CHR 0x5C, CHR ''s'', CHR ''*''] @ sep_raw @ [CHR 0x5C, CHR ''s'', CHR ''*'']"

text \<open>A run that ends with an exception before the destination file is opened.\<close>

definition stopped :: "py_exception \<Rightarrow> bool \<Rightarrow> nat \<Rightarrow> run" where
  "stopped e tmp n = \<lparr>exception = Some e, temp_exists = tmp, written = None, compiled = n\<rparr>"

text \<open>
  \<^verbatim>\<open>main\<close> from line 113 on, for the \<^verbatim>\<open>path_or_url\<close> that the command line or
  \<^verbatim>\<open>_select_file\<close> gave. Only the call of \<^verbatim>\<open>_process\<close> stands inside the \<^verbatim>\<open>try\<close> whose
  \<^verbatim>\<open>finally\<close> runs \<^verbatim>\<open>source.cleanup()\<close>.
\<close>

definition main :: "world \<Rightarrow> string \<Rightarrow> run" where
  "main w path_or_url =
     (case get_source w path_or_url of
        (Inl e, tmp) \<Rightarrow> stopped e tmp 0
      | (Inr source, tmp) \<Rightarrow>
     (case bind (guess_separator (readline (src_lines source))) human_suggest of
        Inl e \<Rightarrow> stopped e tmp 0
      | Inr suggestion \<Rightarrow>
     (case ask (Some suggestion) (stdin w) of
        (Inl e, _) \<Rightarrow> stopped e tmp 0
      | (Inr sep_raw, answers) \<Rightarrow>
     (case re_compile w (separator_expression sep_raw) of
        Inl e \<Rightarrow> stopped e tmp 1
      | Inr sep_regex \<Rightarrow>
     (case ask None answers of
        (Inl e, _) \<Rightarrow> stopped e tmp 1
      | (Inr cols_raw, _) \<Rightarrow>
     (let columns = parse_columns cols_raw
      in if columns = [] then stopped SystemExit tmp 1
         else let r = process (tqdm_installed w) sep_regex columns (src_lines source)
              in \<lparr>exception = raised r,
                  temp_exists = (if temporary source then False else tmp),
                  written = Some (rows r), compiled = 1\<rparr>))))))"

text \<open>
  A world for the examples. The source is remote and has two lines; \<^verbatim>\<open>tqdm\<close> is
  installed. Its \<^verbatim>\<open>re.compile\<close> knows the expressions built from the suggestions
  \<^verbatim>\<open>\|\<close>, \<^verbatim>\<open>,\<close> and \<^verbatim>\<open>;\<close>; every other expression is taken to be rejected, as
  \<^verbatim>\<open>\s*(\s*\<close> is.
\<close>

definition example_compile :: "string \<Rightarrow> py_exception + pattern" where
  "example_compile e =
     (if e = separator_expression [CHR 0x5C, CHR ''|''] then Inr (split_ws_literal CHR ''|'')
      else if e = separator_expression '','' then Inr (split_ws_literal CHR '','')
      else if e = separator_expression '';'' then Inr (split_ws_literal CHR '';'')
      else Inl PatternError)"

definition example_world :: "string list \<Rightarrow> world" where
  "example_world answers =
     \<lparr>tqdm_installed = True, is_file = (\<lambda>p. False), file_lines = (\<lambda>p. []),
      urlopen = (\<lambda>u. Inr [''1|Alice|01.01.1990'' @ [CHR 0x0A], ''2|Bob|'']),
      re_compile = example_compile, stdin = answers\<rparr>"

text \<open>
  \<^verbatim>\<open>re.compile(r'\s*?\s*').split\<close>, the pattern built from the answer \<^verbatim>\<open>?\<close>: the lazy
  \<^verbatim>\<open>\s*?\<close> takes nothing and the greedy \<^verbatim>\<open>\s*\<close> the white space that follows, so there
  is a match, possibly empty, at every position that the match before leaves open
  (from Python 3.7 on an empty match splits too, unless it follows an empty match at
  the same place). \<open>split_lazy_ws_from\<close> is the split after an empty match in front of
  a character that is not white space, or at the end.
\<close>

function split_lazy_ws_from :: "string \<Rightarrow> string list" where
  "split_lazy_ws_from [] = [[]]"
| "split_lazy_ws_from (c # rest) =
     [c] # (if rest \<noteq> [] \<and> isspace (hd rest)
            then [] # split_lazy_ws_from (dropWhile isspace rest)
            else split_lazy_ws_from rest)"
  by pat_completeness auto
termination
proof (relation "measure length")
  fix c :: char and rest :: string
  have "length (dropWhile isspace rest) \<le> length rest" by (rule length_dropWhile_le)
  then show "(dropWhile isspace rest, c # rest) \<in> measure length" by simp
qed simp_all

definition split_lazy_ws :: pattern where
  "split_lazy_ws s =
     map Some ((if s \<noteq> [] \<and> isspace (hd s) then [[], []] else [[]])
               @ split_lazy_ws_from (dropWhile isspace s))"

text \<open>
  A world in which the answer to the separator prompt is \<^verbatim>\<open>?\<close>. \<^verbatim>\<open>re.compile\<close> rejects
  that expression alone (nothing to repeat) and accepts it between two \<^verbatim>\<open>\s*\<close>; every
  other expression is taken to be rejected. The source is a local file of two lines.
\<close>

definition lazy_compile :: "string \<Rightarrow> py_exception + pattern" where
  "lazy_compile e =
     (if e = separator_expression ''?'' then Inr split_lazy_ws else Inl PatternError)"

definition lazy_world :: world where
  "lazy_world =
     \<lparr>tqdm_installed = True, is_file = (\<lambda>p. p = ''data.txt''),
      file_lines = (\<lambda>p. [''a b'' @ [CHR 0x0A], ''c'']),
      urlopen = (\<lambda>u. Inl OSError),
      re_compile = lazy_compile, stdin = [''?'', ''x,y,z'']\<rparr>"

section \<open>Notions of the specification\<close>

text \<open>
  A valid calendar date, in the words of the specification: a month from 1 to 12 and
  a day of that month, February having 29 days in leap years only; the years are those
  of four digits that \<^verbatim>\<open>datetime.date\<close> knows, 1 to 9999.
\<close>

definition leap_year :: "int \<Rightarrow> bool" where
  "leap_year y \<longleftrightarrow> (4 dvd y \<and> \<not> 100 dvd y) \<or> 400 dvd y"

definition month_length :: "int \<Rightarrow> int \<Rightarrow> int" where
  "month_length y m =
     (if m = 2 then (if leap_year y then 29 else 28)
      else if m = 4 \<or> m = 6 \<or> m = 9 \<or> m = 11 then 30 else 31)"

definition valid_calendar_date :: "int \<Rightarrow> int \<Rightarrow> int \<Rightarrow> bool" where
  "valid_calendar_date y m d \<longleftrightarrow>
     1 \<le> y \<and> y \<le> 9999 \<and> 1 \<le> m \<and> m \<le> 12 \<and> 1 \<le> d \<and> d \<le> month_length y m"

text \<open>
  The form \<^verbatim>\<open>YYYY-MM-DD\<close> of the date \<open>y\<close>, \<open>m\<close>, \<open>d\<close>: ten characters, hyphens at
  the fifth and eighth place, digits elsewhere, read as the three numbers.
\<close>

definition field_value :: "string \<Rightarrow> int" where
  "field_value s = int (digits_value 0 s)"

definition iso_form :: "string \<Rightarrow> int \<Rightarrow> int \<Rightarrow> int \<Rightarrow> bool" where
  "iso_form s y m d \<longleftrightarrow>
     length s = 10 \<and> s ! 4 = CHR ''-'' \<and> s ! 7 = CHR ''-'' \<and>
     list_all isdigit (take 4 s) \<and> list_all isdigit (take 2 (drop 5 s)) \<and>
     list_all isdigit (drop 8 s) \<and>
     field_value (take 4 s) = y \<and> field_value (take 2 (drop 5 s)) = m \<and>
     field_value (drop 8 s) = d"

definition iso_date_string :: "string \<Rightarrow> bool" where
  "iso_date_string s \<longleftrightarrow>
     (let y = field_value (take 4 s); m = field_value (take 2 (drop 5 s));
          d = field_value (drop 8 s)
      in iso_form s y m d \<and> valid_calendar_date y m d)"

text \<open>
  The separator candidates in the order of their declaration, each a single character,
  and the number of times a character occurs in a line.
\<close>

definition candidates :: "char list" where
  "candidates = [CHR ''|'', CHR '','', CHR '';'', CHR 0x09]"

definition occurrences :: "char \<Rightarrow> string \<Rightarrow> nat" where
  "occurrences c line = length (filter (\<lambda>x. x = c) line)"

text \<open>
  The third step of the transformer in the words of the specification: a field is
  trimmed, and replaced by the NULL sentinel if nothing is left.
\<close>

definition trimmed_or_null :: "string \<Rightarrow> string" where
  "trimmed_or_null f = (if strip f = [] then NULL else strip f)"

text \<open>The positions of the date columns: the name is \<^verbatim>\<open>birthday\<close> or \<^verbatim>\<open>date\<close> in any case.\<close>

definition is_date_column :: "string list \<Rightarrow> nat \<Rightarrow> bool" where
  "is_date_column columns i \<longleftrightarrow>
     i < length columns \<and> (lower (columns ! i) = ''birthday'' \<or> lower (columns ! i) = ''date'')"

text \<open>
  The fields of a line after the second step: the split of the line without its end
  of line, filled up with empty strings and cut to the number of columns.
\<close>

definition padded :: "pattern \<Rightarrow> string list \<Rightarrow> string \<Rightarrow> string option list" where
  "padded sep_regex columns line =
     take (length columns) (sep_regex (rstrip_nl line) @ replicate (length columns) (Some []))"

text \<open>A blank line has white space only (its end of line included).\<close>

definition blank :: "string \<Rightarrow> bool" where
  "blank line \<longleftrightarrow> (\<forall>c\<in>set line. isspace c)"

section \<open>Properties of the date normalizer\<close>

lemma digit_val_digit_char: "d < 10 \<Longrightarrow> digit_val (digit_char d) = Some d"
  unfolding digit_val_def digit_char_def by (auto simp: numeral_eq_Suc less_Suc_eq)

lemma isdigit_digit_char: "isdigit (digit_char d)"
  unfolding isdigit_def digit_val_def digit_char_def by simp

lemma decimal_small: "n < 10 \<Longrightarrow> decimal n = [digit_char n]"
  by (subst decimal.simps) simp

lemma decimal_large: "\<not> n < 10 \<Longrightarrow> decimal n = decimal (n div 10) @ [digit_char (n mod 10)]"
  by (subst decimal.simps) simp

lemma replicate_small:
  "replicate 1 c = [c]" "replicate 2 c = [c, c]" "replicate 3 c = [c, c, c]"
  by (simp_all add: numeral_eq_Suc)

lemma zero_filled_2:
  assumes "n < 100"
  shows "zero_filled 2 n = [digit_char (n div 10), digit_char (n mod 10)]"
proof (cases "n < 10")
  case True
  then show ?thesis by (simp add: zero_filled_def replicate_small decimal_small digit_char_def)
next
  case False
  with assms have "n div 10 < 10" by simp
  with False show ?thesis by (simp add: zero_filled_def decimal_large decimal_small)
qed

lemma zero_filled_4:
  assumes "n < 10000"
  shows "zero_filled 4 n =
    [digit_char (n div 1000), digit_char (n div 100 mod 10), digit_char (n div 10 mod 10),
     digit_char (n mod 10)]"
proof -
  consider "n < 10" | "10 \<le> n" "n < 100" | "100 \<le> n" "n < 1000" | "1000 \<le> n" by linarith
  then show ?thesis
  proof cases
    case 1
    then show ?thesis
      by (simp add: zero_filled_def replicate_small decimal_small digit_char_def)
  next
    case 2
    then have "n div 10 < 10" "\<not> n < 10" by simp_all
    then show ?thesis using 2
      by (simp add: zero_filled_def replicate_small decimal_large decimal_small digit_char_def)
  next
    case 3
    then have "\<not> n < 10" "\<not> n div 10 < 10" "n div 10 div 10 < 10" by simp_all
    then show ?thesis using 3
      by (simp add: zero_filled_def replicate_small decimal_large decimal_small digit_char_def
          div_mult2_eq[symmetric])
  next
    case 4
    with assms have "\<not> n < 10" "\<not> n div 10 < 10" "\<not> n div 10 div 10 < 10"
      "n div 10 div 10 div 10 < 10" by simp_all
    then show ?thesis using 4
      by (simp add: zero_filled_def decimal_large decimal_small digit_char_def
          div_mult2_eq[symmetric])
  qed
qed

lemma value_2:
  "a < 10 \<Longrightarrow> b < 10 \<Longrightarrow> digits_value 0 [digit_char a, digit_char b] = 10 * a + b"
  by (simp add: digit_val_digit_char)

lemma value_4: "a < 10 \<Longrightarrow> b < 10 \<Longrightarrow> c < 10 \<Longrightarrow> d < 10 \<Longrightarrow>
  digits_value 0 [digit_char a, digit_char b, digit_char c, digit_char d] =
    1000 * a + 100 * b + 10 * c + d"
  by (simp add: digit_val_digit_char)

lemma is_leap_spec: "is_leap y = leap_year y"
proof -
  have "400 dvd y \<Longrightarrow> 4 dvd y" by (rule dvd_trans[of 4 400]) simp_all
  moreover have "400 dvd y \<Longrightarrow> 100 dvd y" by (rule dvd_trans[of 100 400]) simp_all
  ultimately show ?thesis
    unfolding is_leap_def leap_year_def mod_eq_0_iff_dvd by blast
qed

lemma days_in_month_spec:
  assumes "1 \<le> m" "m \<le> 12"
  shows "days_in_month y m = month_length y m"
proof -
  have low: "m \<le> 4 \<Longrightarrow> m = 1 \<or> m = 2 \<or> m = 3 \<or> m = 4"
    and mid: "5 \<le> m \<Longrightarrow> m \<le> 8 \<Longrightarrow> m = 5 \<or> m = 6 \<or> m = 7 \<or> m = 8"
    and high: "9 \<le> m \<Longrightarrow> m = 9 \<or> m = 10 \<or> m = 11 \<or> m = 12"
    using assms by linarith+
  have eq: "m = k \<Longrightarrow> days_in_month y k = month_length y k \<Longrightarrow> ?thesis" for k
    by simp
  consider "m \<le> 4" | "5 \<le> m" "m \<le> 8" | "9 \<le> m" by linarith
  then show ?thesis
  proof cases
    case 1
    from low[OF this] show ?thesis
      by (elim disjE eq)
        (simp_all add: days_in_month_def month_length_def DAYS_IN_MONTH_def is_leap_spec)
  next
    case 2
    from mid[OF this] show ?thesis
      by (elim disjE eq)
        (simp_all add: days_in_month_def month_length_def DAYS_IN_MONTH_def is_leap_spec)
  next
    case 3
    from high[OF this] show ?thesis
      by (elim disjE eq)
        (simp_all add: days_in_month_def month_length_def DAYS_IN_MONTH_def is_leap_spec)
  qed
qed

lemma month_length_le: "month_length y m \<le> 31"
  by (simp add: month_length_def)

lemma py_date_valid:
  "valid_calendar_date y m d \<Longrightarrow>
     py_date y m d = Inr \<lparr>year = nat y, month = nat m, day = nat d\<rparr>"
  using month_length_le[of y m]
  by (simp add: valid_calendar_date_def py_date_def fits_c_int_def days_in_month_spec)

lemma py_date_invalid:
  assumes "\<not> valid_calendar_date y m d"
  shows "py_date y m d = Inl OverflowError \<or> py_date y m d = Inl ValueError"
proof (cases "1 \<le> m \<and> m \<le> 12")
  case True
  then have "days_in_month y m = month_length y m" by (simp add: days_in_month_spec)
  with assms show ?thesis
    by (simp add: valid_calendar_date_def py_date_def) linarith
next
  case False
  then show ?thesis by (simp add: py_date_def) linarith
qed

lemma decimal_places:
  "1000 * (n div 1000) + 100 * (n div 100 mod 10) + 10 * (n div 10 mod 10) + n mod 10 = (n::nat)"
proof -
  define q1 r0 q2 r1 q3 r2 where "q1 = n div 10" and "r0 = n mod 10" and "q2 = q1 div 10"
    and "r1 = q1 mod 10" and "q3 = q2 div 10" and "r2 = q2 mod 10"
  have e0: "n = 10 * q1 + r0" and e1: "q1 = 10 * q2 + r1" and e2: "q2 = 10 * q3 + r2"
    by (simp_all add: q1_def r0_def q2_def r1_def q3_def r2_def)
  have d2: "n div 100 = q2" and d3: "n div 1000 = q3"
    by (simp_all add: q1_def q2_def q3_def div_mult2_eq[symmetric])
  have "1000 * q3 + 100 * r2 + 10 * r1 + r0 = n"
    using e0 e1 e2 by linarith
  then show ?thesis
    unfolding d2 d3 r2_def[symmetric] q1_def[symmetric] r1_def[symmetric] r0_def[symmetric] .
qed

lemma iso_form_explicit:
  assumes "a < 10" "b < 10" "c < 10" "d < 10" "e < 10" "f < 10" "g < 10" "h < 10"
  shows "iso_form ([digit_char a, digit_char b, digit_char c, digit_char d] @ ''-'' @
           [digit_char e, digit_char f] @ ''-'' @ [digit_char g, digit_char h])
           (int (1000 * a + 100 * b + 10 * c + d)) (int (10 * e + f)) (int (10 * g + h))"
  unfolding iso_form_def field_value_def
  by (simp add: isdigit_digit_char value_2 value_4 assms del: digits_value.simps)

lemma isoformat_iso_form:
  assumes "year dt < 10000" "month dt < 100" "day dt < 100"
  shows "iso_form (isoformat dt) (int (year dt)) (int (month dt)) (int (day dt))"
proof -
  let ?y = "year dt" and ?m = "month dt" and ?d = "day dt"
  have vy: "1000 * (?y div 1000) + 100 * (?y div 100 mod 10) + 10 * (?y div 10 mod 10)
      + ?y mod 10 = ?y"
    by (rule decimal_places)
  have vm: "10 * (?m div 10) + ?m mod 10 = ?m" by simp
  have vd: "10 * (?d div 10) + ?d mod 10 = ?d" by simp
  have "iso_form ([digit_char (?y div 1000), digit_char (?y div 100 mod 10),
           digit_char (?y div 10 mod 10), digit_char (?y mod 10)] @ ''-'' @
           [digit_char (?m div 10), digit_char (?m mod 10)] @ ''-'' @
           [digit_char (?d div 10), digit_char (?d mod 10)])
           (int (1000 * (?y div 1000) + 100 * (?y div 100 mod 10) + 10 * (?y div 10 mod 10)
              + ?y mod 10))
           (int (10 * (?m div 10) + ?m mod 10)) (int (10 * (?d div 10) + ?d mod 10))"
    using assms by (intro iso_form_explicit) simp_all
  then show ?thesis
    unfolding isoformat_def zero_filled_4[OF assms(1)] zero_filled_2[OF assms(2)]
      zero_filled_2[OF assms(3)] vy vm vd .
qed

lemma isoformat_valid:
  assumes "valid_calendar_date y m d"
  shows "iso_form (isoformat \<lparr>year = nat y, month = nat m, day = nat d\<rparr>) y m d"
proof -
  let ?dt = "\<lparr>year = nat y, month = nat m, day = nat d\<rparr>"
  have r: "1 \<le> y" "y \<le> 9999" "1 \<le> m" "m \<le> 12" "1 \<le> d" "d \<le> 31"
    using assms month_length_le[of y m] by (simp_all add: valid_calendar_date_def)
  then have "year ?dt < 10000" "month ?dt < 100" "day ?dt < 100" by simp_all
  from isoformat_iso_form[OF this] r show ?thesis by simp
qed

lemma py_int_raises: "py_int s = Inl e \<Longrightarrow> e = ValueError"
  by (simp add: py_int_def Let_def split: if_splits)

text \<open>What the \<^verbatim>\<open>try\<close> block of the normalizer does, case by case.\<close>

lemma safe_iso_try_date:
  assumes "split raw CHR ''.'' = [d, m, y]" "length y = 4"
    "py_int d = Inr di" "py_int m = Inr mi" "py_int y = Inr yi" "valid_calendar_date yi mi di"
  shows "safe_iso_try raw = Inr (Some (isoformat \<lparr>year = nat yi, month = nat mi, day = nat di\<rparr>))"
  using assms by (simp add: safe_iso_try_def unpack3_def bind_def py_date_valid)

lemma safe_iso_try_other:
  assumes "\<not> (\<exists>d m y di mi yi. split raw CHR ''.'' = [d, m, y] \<and> length y = 4 \<and>
    py_int d = Inr di \<and> py_int m = Inr mi \<and> py_int y = Inr yi \<and> valid_calendar_date yi mi di)"
  shows "safe_iso_try raw = Inr None \<or> safe_iso_try raw = Inl ValueError
    \<or> safe_iso_try raw = Inl OverflowError"
proof (cases "\<exists>d m y. split raw CHR ''.'' = [d, m, y]")
  case False
  then have "unpack3 (split raw CHR ''.'') = Inl ValueError"
    by (auto simp: unpack3_def split: list.splits)
  then show ?thesis by (simp add: safe_iso_try_def bind_def)
next
  case True
  then obtain d m y where s: "split raw CHR ''.'' = [d, m, y]" by blast
  show ?thesis
  proof (cases "length y = 4")
    case False
    with s show ?thesis by (simp add: safe_iso_try_def unpack3_def bind_def)
  next
    case len: True
    show ?thesis
    proof (cases "py_int y")
      case (Inl e)
      with s len py_int_raises[of y e] show ?thesis
        by (simp add: safe_iso_try_def unpack3_def bind_def)
    next
      case y: (Inr yi)
      show ?thesis
      proof (cases "py_int m")
        case (Inl e)
        with s len y py_int_raises[of m e] show ?thesis
          by (simp add: safe_iso_try_def unpack3_def bind_def)
      next
        case m: (Inr mi)
        show ?thesis
        proof (cases "py_int d")
          case (Inl e)
          with s len y m py_int_raises[of d e] show ?thesis
            by (simp add: safe_iso_try_def unpack3_def bind_def)
        next
          case d: (Inr di)
          with assms s len y m have "\<not> valid_calendar_date yi mi di" by blast
          from py_date_invalid[OF this] s len y m d show ?thesis
            by (auto simp: safe_iso_try_def unpack3_def bind_def)
        qed
      qed
    qed
  qed
qed

text \<open>
  Claim C3. The components are those of the argument without its surrounding white
  space, which the normalizer removes first (the transformer passes trimmed values);
  a component parses as an integer when \<^verbatim>\<open>int()\<close> accepts it. If there are exactly three
  components between dots, the year has four characters, the three parse and form a
  valid calendar date, the result is that date in the form \<^verbatim>\<open>YYYY-MM-DD\<close>; for every
  other argument it is the NULL sentinel. \<^verbatim>\<open>05.03.2020\<close> gives \<^verbatim>\<open>2020-03-05\<close>;
  \<^verbatim>\<open>31.02.2020\<close> and \<^verbatim>\<open>2020-03-05\<close> give the sentinel.
\<close>

theorem safe_iso_dates:
  "(split (strip raw) CHR ''.'' = [d, m, y] \<and> length y = 4 \<and>
      py_int d = Inr di \<and> py_int m = Inr mi \<and> py_int y = Inr yi \<and>
      valid_calendar_date yi mi di
      \<longrightarrow> (\<exists>s. safe_iso raw = Inr s \<and> iso_form s yi mi di))
   \<and> (\<not> (\<exists>d m y di mi yi. split (strip raw) CHR ''.'' = [d, m, y] \<and> length y = 4 \<and>
          py_int d = Inr di \<and> py_int m = Inr mi \<and> py_int y = Inr yi \<and>
          valid_calendar_date yi mi di)
      \<longrightarrow> safe_iso raw = Inr NULL)
   \<and> safe_iso ''05.03.2020'' = Inr ''2020-03-05''
   \<and> safe_iso ''31.02.2020'' = Inr NULL
   \<and> safe_iso ''2020-03-05'' = Inr NULL"
proof (intro conjI impI)
  assume "split (strip raw) CHR ''.'' = [d, m, y] \<and> length y = 4 \<and>
      py_int d = Inr di \<and> py_int m = Inr mi \<and> py_int y = Inr yi \<and>
      valid_calendar_date yi mi di"
  then have "safe_iso_try (strip raw) =
      Inr (Some (isoformat \<lparr>year = nat yi, month = nat mi, day = nat di\<rparr>))"
    and "valid_calendar_date yi mi di"
    by (simp_all add: safe_iso_try_date)
  then show "\<exists>s. safe_iso raw = Inr s \<and> iso_form s yi mi di"
    by (simp add: safe_iso_def isoformat_valid)
next
  assume "\<not> (\<exists>d m y di mi yi. split (strip raw) CHR ''.'' = [d, m, y] \<and> length y = 4 \<and>
          py_int d = Inr di \<and> py_int m = Inr mi \<and> py_int y = Inr yi \<and>
          valid_calendar_date yi mi di)"
  from safe_iso_try_other[OF this] show "safe_iso raw = Inr NULL"
    by (auto simp: safe_iso_def)
next
  show "safe_iso ''05.03.2020'' = Inr ''2020-03-05''" by code_simp
next
  show "safe_iso ''31.02.2020'' = Inr NULL" by code_simp
next
  show "safe_iso ''2020-03-05'' = Inr NULL" by code_simp
qed

theorem safe_iso_dates_witness:
  "(\<exists>s. safe_iso ''29.02.2024'' = Inr s \<and> iso_form s 2024 2 29)
   \<and> safe_iso ''29.02.2023'' = Inr NULL"
proof
  have h: "split (strip ''29.02.2024'') CHR ''.'' = [''29'', ''02'', ''2024'']\<and>
    length ''2024'' = 4 \<and> py_int ''29'' = Inr 29 \<and> py_int ''02'' = Inr 2 \<and>
    py_int ''2024'' = Inr 2024 \<and> valid_calendar_date 2024 2 29"
    by code_simp
  from safe_iso_dates[of "''29.02.2024''" "''29''" "''02''" "''2024''" 29 2 2024] h
  show "\<exists>s. safe_iso ''29.02.2024'' = Inr s \<and> iso_form s 2024 2 29" by blast
next
  have s: "split (strip ''29.02.2023'') CHR ''.'' = [''29'', ''02'', ''2023'']"
    and i: "py_int ''29'' = Inr 29" "py_int ''02'' = Inr 2" "py_int ''2023'' = Inr 2023"
    and v: "\<not> valid_calendar_date 2023 2 29"
    by code_simp+
  have "\<not> (\<exists>d m y di mi yi. split (strip ''29.02.2023'') CHR ''.'' = [d, m, y] \<and> length y = 4 \<and>
          py_int d = Inr di \<and> py_int m = Inr mi \<and> py_int y = Inr yi \<and>
          valid_calendar_date yi mi di)"
    using i v unfolding s by auto
  with safe_iso_dates[of "''29.02.2023''"] show "safe_iso ''29.02.2023'' = Inr NULL" by blast
qed

text \<open>
  Claim C4. The normalizer is total: for every argument it returns, without raising,
  either the NULL sentinel or a string in the form \<^verbatim>\<open>YYYY-MM-DD\<close> of a valid calendar
  date.
\<close>

theorem safe_iso_total:
  "\<exists>s. safe_iso raw = Inr s \<and> (s = NULL \<or> iso_date_string s)"
proof (cases "\<exists>d m y di mi yi. split (strip raw) CHR ''.'' = [d, m, y] \<and> length y = 4 \<and>
          py_int d = Inr di \<and> py_int m = Inr mi \<and> py_int y = Inr yi \<and>
          valid_calendar_date yi mi di")
  case True
  then obtain d m y di mi yi where c: "split (strip raw) CHR ''.'' = [d, m, y]" "length y = 4"
    "py_int d = Inr di" "py_int m = Inr mi" "py_int y = Inr yi" "valid_calendar_date yi mi di"
    by blast
  let ?s = "isoformat \<lparr>year = nat yi, month = nat mi, day = nat di\<rparr>"
  from safe_iso_try_date[OF c] have "safe_iso raw = Inr ?s" by (simp add: safe_iso_def)
  moreover from isoformat_valid[OF c(6)] have f: "iso_form ?s yi mi di" .
  then have "iso_date_string ?s"
    using c(6) by (simp add: iso_date_string_def iso_form_def Let_def)
  ultimately show ?thesis by blast
next
  case False
  from safe_iso_try_other[OF this] have "safe_iso raw = Inr NULL"
    by (auto simp: safe_iso_def)
  then show ?thesis by blast
qed

section \<open>Properties of the separator detector\<close>

lemma count_from_single: "count_from [c] 0 s = occurrences c s"
  by (induction s) (auto simp: occurrences_def)

lemma count_single: "count s [c] = occurrences c s"
  by (simp add: count_def count_from_single)

lemma counts_candidates:
  "counts line = map (\<lambda>c. ([c], occurrences c line)) candidates"
  by (simp add: counts_def COMMON_SEPARATORS_def candidates_def count_single)

lemma max_from_first:
  "\<exists>pre post. b # xs = pre @ max_from key b xs # post \<and>
     (\<forall>x\<in>set pre. key x < key (max_from key b xs)) \<and>
     (\<forall>x\<in>set post. key x \<le> key (max_from key b xs))"
proof (induction xs arbitrary: b)
  case Nil
  show ?case by (intro exI[of _ "[]"]) simp
next
  case (Cons x xs)
  show ?case
  proof (cases "key b < key x")
    case True
    let ?r = "max_from key x xs"
    from True have r: "max_from key b (x # xs) = ?r" by simp
    from Cons.IH[of x] obtain pre post where d: "x # xs = pre @ ?r # post"
      and lt: "\<forall>y\<in>set pre. key y < key ?r" and le: "\<forall>y\<in>set post. key y \<le> key ?r"
      by blast
    have "key x \<le> key ?r"
    proof (cases pre)
      case Nil
      with d have "x = ?r" by (metis append_Nil list.inject)
      then show ?thesis by (metis order_refl)
    next
      case (Cons p ps)
      with d have "p = x" by simp
      with Cons lt show ?thesis by (simp add: less_imp_le)
    qed
    with True have "key b < key ?r" by simp
    with d lt le have "b # x # xs = (b # pre) @ ?r # post \<and>
      (\<forall>y\<in>set (b # pre). key y < key ?r) \<and> (\<forall>y\<in>set post. key y \<le> key ?r)"
      by simp
    then show ?thesis unfolding r by blast
  next
    case False
    let ?r = "max_from key b xs"
    from False have r: "max_from key b (x # xs) = ?r" by simp
    from Cons.IH[of b] obtain pre post where d: "b # xs = pre @ ?r # post"
      and lt: "\<forall>y\<in>set pre. key y < key ?r" and le: "\<forall>y\<in>set post. key y \<le> key ?r"
      by blast
    show ?thesis
    proof (cases pre)
      case Nil
      with d have e: "b = ?r" and f: "xs = post"
        by (metis append_Nil list.inject)+
      from False have "key x \<le> key b" by simp
      then have kx: "key x \<le> key ?r" by (metis e)
      have "b # x # xs = [] @ ?r # (x # post)"
        by (metis e f append_Nil)
      moreover have "\<forall>y\<in>set (x # post). key y \<le> key ?r"
        using kx le by simp
      ultimately show ?thesis unfolding r by (metis empty_iff empty_set)
    next
      case (Cons p ps)
      with d have p: "p = b" and xs: "xs = ps @ ?r # post"
        by (metis append_Cons list.inject)+
      from lt have "key p < key ?r" unfolding Cons by simp
      then have "key b < key ?r" unfolding p .
      with False have kx: "key x < key ?r" by simp
      have "b # x # xs = (b # x # ps) @ ?r # post" using xs by simp
      moreover have "\<forall>y\<in>set (b # x # ps). key y < key ?r"
        using lt kx unfolding Cons p by simp
      ultimately show ?thesis unfolding r using le by blast
    qed
  qed
qed

lemma guess_separator_first_max:
  "\<exists>pre r post. candidates = pre @ r # post \<and> guess_separator line = Inr [r] \<and>
     (\<forall>c\<in>set pre. occurrences c line < occurrences r line) \<and>
     (\<forall>c\<in>set post. occurrences c line \<le> occurrences r line)"
proof -
  let ?f = "\<lambda>c. ([c], occurrences c line)"
  obtain b xs where c: "candidates = b # xs" by (simp add: candidates_def)
  let ?m = "max_from snd (?f b) (map ?f xs)"
  from max_from_first[of "?f b" "map ?f xs" snd] obtain pre post
    where d: "?f b # map ?f xs = pre @ ?m # post"
      and lt: "\<forall>x\<in>set pre. snd x < snd ?m" and le: "\<forall>x\<in>set post. snd x \<le> snd ?m"
    by blast
  from d have "map ?f candidates = pre @ ?m # post" by (simp add: c)
  then obtain pre' r post' where c': "candidates = pre' @ r # post'"
    and p: "pre = map ?f pre'" and m: "?m = ?f r" and q: "post = map ?f post'"
    by (auto simp: map_eq_append_conv map_eq_Cons_conv)
  have "guess_separator line = Inr (fst ?m)"
    by (simp add: guess_separator_def counts_candidates c py_max_def bind_def)
  with m have g: "guess_separator line = Inr [r]" by simp
  from lt le have "(\<forall>c\<in>set pre'. occurrences c line < occurrences r line) \<and>
     (\<forall>c\<in>set post'. occurrences c line \<le> occurrences r line)"
    unfolding p q m by simp
  with c' g show ?thesis by blast
qed

text \<open>
  Claim C6. When one of the four candidates (vertical bar, comma, semicolon, tab)
  occurs in the sample line strictly more often than each of the others, the detector
  returns it; for \<^verbatim>\<open>a|b|c\<close> it returns the vertical bar.
\<close>

theorem guess_separator_majority:
  "(c \<in> set candidates \<and>
      (\<forall>c'\<in>set candidates. c' \<noteq> c \<longrightarrow> occurrences c' line < occurrences c line)
    \<longrightarrow> guess_separator line = Inr [c])
   \<and> guess_separator ''a|b|c'' = Inr ''|''"
proof (intro conjI impI)
  assume a: "c \<in> set candidates \<and>
      (\<forall>c'\<in>set candidates. c' \<noteq> c \<longrightarrow> occurrences c' line < occurrences c line)"
  from guess_separator_first_max[of line] obtain pre r post
    where d: "candidates = pre @ r # post" and g: "guess_separator line = Inr [r]"
      and lt: "\<forall>c\<in>set pre. occurrences c line < occurrences r line"
      and le: "\<forall>c\<in>set post. occurrences c line \<le> occurrences r line"
    by blast
  have "r = c"
  proof (rule ccontr)
    assume n: "r \<noteq> c"
    from d have "r \<in> set candidates" by (metis in_set_conv_decomp)
    with a n have s: "occurrences r line < occurrences c line" by blast
    from a have "c \<in> set candidates" by blast
    then have "c \<in> set (pre @ r # post)" unfolding d .
    with n have "c \<in> set pre \<or> c \<in> set post" by auto
    with lt le have "occurrences c line \<le> occurrences r line" by (auto intro: less_imp_le)
    with s show False by simp
  qed
  with g show "guess_separator line = Inr [c]" by simp
next
  show "guess_separator ''a|b|c'' = Inr ''|''" by code_simp
qed

theorem guess_separator_majority_witness:
  "guess_separator ''x;y, z;w'' = Inr '';''"
proof -
  have "CHR '';'' \<in> set candidates \<and>
      (\<forall>c'\<in>set candidates. c' \<noteq> CHR '';'' \<longrightarrow>
         occurrences c' ''x;y, z;w'' < occurrences CHR '';'' ''x;y, z;w'')"
    by (simp add: candidates_def occurrences_def)
  with guess_separator_majority[of "CHR '';''" "''x;y, z;w''"] show ?thesis by blast
qed

text \<open>
  Claim C7. For a line in which no candidate occurs, the empty line among them, the
  detector returns the first candidate, the vertical bar, and does not fail. For every
  line it returns the candidate that is earliest in the order of declaration among
  those with the largest count: the candidates before it occur strictly less often,
  those after it at most as often.
\<close>

theorem guess_separator_default:
  "((\<forall>c\<in>set candidates. occurrences c line = 0) \<longrightarrow> guess_separator line = Inr ''|'')
   \<and> guess_separator [] = Inr ''|''
   \<and> (\<exists>pre r post. candidates = pre @ r # post \<and> guess_separator line = Inr [r] \<and>
        (\<forall>c\<in>set pre. occurrences c line < occurrences r line) \<and>
        (\<forall>c\<in>set post. occurrences c line \<le> occurrences r line))"
proof (intro conjI impI)
  assume z: "\<forall>c\<in>set candidates. occurrences c line = 0"
  from guess_separator_first_max[of line] obtain pre r post
    where d: "candidates = pre @ r # post" and g: "guess_separator line = Inr [r]"
      and lt: "\<forall>c\<in>set pre. occurrences c line < occurrences r line"
    by blast
  from d have "r \<in> set candidates" by (metis in_set_conv_decomp)
  with z have "occurrences r line = 0" by blast
  have "pre = []"
  proof (cases pre)
    case (Cons p ps)
    with lt have "occurrences p line < occurrences r line" by simp
    with \<open>occurrences r line = 0\<close> show ?thesis by simp
  qed simp
  with d have "r = CHR ''|''" by (simp add: candidates_def)
  with g show "guess_separator line = Inr ''|''" by simp
next
  show "guess_separator [] = Inr ''|''" by code_simp
next
  show "\<exists>pre r post. candidates = pre @ r # post \<and> guess_separator line = Inr [r] \<and>
        (\<forall>c\<in>set pre. occurrences c line < occurrences r line) \<and>
        (\<forall>c\<in>set post. occurrences c line \<le> occurrences r line)"
    by (rule guess_separator_first_max)
qed

theorem guess_separator_default_witness:
  "guess_separator ''abc'' = Inr ''|'' \<and> guess_separator ''a,b;c'' = Inr '',''"
proof
  have "\<forall>c\<in>set candidates. occurrences c ''abc'' = 0"
    by (simp add: candidates_def occurrences_def)
  with guess_separator_default[of "''abc''"] show "guess_separator ''abc'' = Inr ''|''"
    by blast
next
  from guess_separator_default[of "''a,b;c''"] obtain pre r post
    where d: "candidates = pre @ r # post" and g: "guess_separator ''a,b;c'' = Inr [r]"
      and lt: "\<forall>c\<in>set pre. occurrences c ''a,b;c'' < occurrences r ''a,b;c''"
      and le: "\<forall>c\<in>set post. occurrences c ''a,b;c'' \<le> occurrences r ''a,b;c''"
    by blast
  have "r = CHR '',''"
  proof -
    from d have "pre = [] \<and> r = CHR ''|'' \<or> pre = [CHR ''|''] \<and> r = CHR '',''
      \<or> pre = [CHR ''|'', CHR '',''] \<and> r = CHR '';''
      \<or> pre = [CHR ''|'', CHR '','', CHR '';''] \<and> r = CHR 0x09"
      unfolding candidates_def by (auto simp: Cons_eq_append_conv)
    with d lt le show ?thesis
      by (auto simp: candidates_def occurrences_def)
  qed
  with g show "guess_separator ''a,b;c'' = Inr '',''" by simp
qed

section \<open>Properties of the record transformer\<close>

lemma safe_iso_returns: "\<exists>s. safe_iso raw = Inr s"
proof (cases "\<exists>d m y di mi yi. split (strip raw) CHR ''.'' = [d, m, y] \<and> length y = 4 \<and>
          py_int d = Inr di \<and> py_int m = Inr mi \<and> py_int y = Inr yi \<and>
          valid_calendar_date yi mi di")
  case True
  then obtain d m y di mi yi where c: "split (strip raw) CHR ''.'' = [d, m, y]" "length y = 4"
    "py_int d = Inr di" "py_int m = Inr mi" "py_int y = Inr yi" "valid_calendar_date yi mi di"
    by blast
  from safe_iso_try_date[OF c] show ?thesis by (simp add: safe_iso_def)
next
  case False
  from safe_iso_try_other[OF this] show ?thesis by (auto simp: safe_iso_def)
qed

lemma safe_iso_NULL: "safe_iso NULL = Inr NULL"
  by code_simp

lemma length_padded: "length (padded sep_regex columns line) = length columns"
  by (simp add: padded_def)

lemma padded_pad:
  "length (sep_regex (rstrip_nl line)) \<le> i \<Longrightarrow> i < length columns \<Longrightarrow>
     padded sep_regex columns line ! i = Some []"
  by (simp add: padded_def nth_append)

lemma padded_field:
  "i < length (sep_regex (rstrip_nl line)) \<Longrightarrow> i < length columns \<Longrightarrow>
     padded sep_regex columns line ! i = sep_regex (rstrip_nl line) ! i"
  by (simp add: padded_def nth_append)

lemma padded_truncates:
  "padded sep_regex columns line =
     take (length columns) (take (length columns) (sep_regex (rstrip_nl line))
       @ replicate (length columns) (Some []))"
  by (simp add: padded_def take_Cons' min_def)

text \<open>The comprehension over the fields.\<close>

lemma comprehend_null_if_empty_Some:
  "comprehend null_if_empty (map Some fs) = Inr (map trimmed_or_null fs)"
  by (induction fs) (simp_all add: bind_def null_if_empty_def trimmed_or_null_def)

lemma comprehend_null_if_empty_None:
  "None \<in> set fs \<Longrightarrow> comprehend null_if_empty fs = Inl AttributeError"
proof (induction fs)
  case Nil
  then show ?case by simp
next
  case (Cons f fs)
  show ?case
  proof (cases f)
    case None
    then show ?thesis by (simp add: bind_def null_if_empty_def)
  next
    case (Some s)
    with Cons show ?thesis by (simp add: bind_def null_if_empty_def)
  qed
qed

lemma all_Some: "None \<notin> set fs \<Longrightarrow> fs = map Some (map the fs)"
  by (induction fs) auto

text \<open>The loop over the date columns.\<close>

lemma normalize_dates_result:
  assumes "distinct idxs" "\<forall>i\<in>set idxs. i < length flds"
  shows "\<exists>r. normalize_dates idxs flds = Inr r \<and> length r = length flds \<and>
    (\<forall>i<length flds. (i \<in> set idxs \<longrightarrow> safe_iso (flds ! i) = Inr (r ! i)) \<and>
       (i \<notin> set idxs \<longrightarrow> r ! i = flds ! i))"
  using assms
proof (induction idxs arbitrary: flds)
  case Nil
  then show ?case by simp
next
  case (Cons idx rest)
  from safe_iso_returns obtain v where v: "safe_iso (flds ! idx) = Inr v" by blast
  let ?f = "flds[idx := v]"
  from Cons.prems have idx: "idx < length flds" "idx \<notin> set rest" by simp_all
  from Cons.prems have "distinct rest" "\<forall>i\<in>set rest. i < length ?f" by simp_all
  from Cons.IH[OF this] obtain r where r: "normalize_dates rest ?f = Inr r"
    "length r = length ?f"
    and a: "\<forall>i<length ?f. (i \<in> set rest \<longrightarrow> safe_iso (?f ! i) = Inr (r ! i)) \<and>
       (i \<notin> set rest \<longrightarrow> r ! i = ?f ! i)"
    by blast
  have n: "normalize_dates (idx # rest) flds = Inr r"
    using idx v r by (simp add: bind_def)
  have "\<forall>i<length flds. (i \<in> set (idx # rest) \<longrightarrow> safe_iso (flds ! i) = Inr (r ! i)) \<and>
       (i \<notin> set (idx # rest) \<longrightarrow> r ! i = flds ! i)"
  proof (intro allI impI)
    fix i assume i: "i < length flds"
    with a have ai: "(i \<in> set rest \<longrightarrow> safe_iso (?f ! i) = Inr (r ! i)) \<and>
       (i \<notin> set rest \<longrightarrow> r ! i = ?f ! i)" by simp
    show "(i \<in> set (idx # rest) \<longrightarrow> safe_iso (flds ! i) = Inr (r ! i)) \<and>
       (i \<notin> set (idx # rest) \<longrightarrow> r ! i = flds ! i)"
    proof (cases "i = idx")
      case True
      with ai idx i v show ?thesis by simp
    next
      case False
      with ai show ?thesis by simp
    qed
  qed
  with n r show ?case by simp
qed

lemma date_idx_set: "set (date_idx columns) = {i. is_date_column columns i}"
  by (auto simp: date_idx_def is_date_column_def)

lemma distinct_date_idx: "distinct (date_idx columns)"
  by (simp add: date_idx_def)

lemma record_of_line_padded:
  "record_of_line sep_regex columns line =
     bind (comprehend null_if_empty (padded sep_regex columns line))
       (normalize_dates (date_idx columns))"
  by (simp add: record_of_line_def padded_def Let_def)

lemma record_of_line_raises:
  assumes "None \<in> set (padded sep_regex columns line)"
  shows "record_of_line sep_regex columns line = Inl AttributeError"
  by (simp add: record_of_line_padded comprehend_null_if_empty_None[OF assms] bind_def)

lemma record_of_line_returns:
  assumes "None \<notin> set (padded sep_regex columns line)"
  shows "\<exists>r. record_of_line sep_regex columns line = Inr r \<and> length r = length columns \<and>
    (\<forall>i<length columns. \<forall>f. padded sep_regex columns line ! i = Some f \<longrightarrow>
       (is_date_column columns i \<longrightarrow> safe_iso (trimmed_or_null f) = Inr (r ! i)) \<and>
       (\<not> is_date_column columns i \<longrightarrow> r ! i = trimmed_or_null f))"
proof -
  let ?p = "padded sep_regex columns line"
  let ?fs = "map the ?p"
  let ?t = "map trimmed_or_null ?fs"
  from all_Some[OF assms] have p: "?p = map Some ?fs" .
  have c: "comprehend null_if_empty ?p = Inr ?t"
    by (subst p) (rule comprehend_null_if_empty_Some)
  have len: "length ?t = length columns" by (simp add: length_padded)
  have "\<forall>i\<in>set (date_idx columns). i < length ?t"
    unfolding len date_idx_set by (simp add: is_date_column_def)
  from normalize_dates_result[OF distinct_date_idx this] obtain r
    where r: "normalize_dates (date_idx columns) ?t = Inr r" "length r = length ?t"
      and a: "\<forall>i<length ?t. (i \<in> set (date_idx columns) \<longrightarrow> safe_iso (?t ! i) = Inr (r ! i)) \<and>
       (i \<notin> set (date_idx columns) \<longrightarrow> r ! i = ?t ! i)"
    by blast
  have "record_of_line sep_regex columns line = Inr r"
    unfolding record_of_line_padded c bind_def sum.case r(1) by (rule refl)
  moreover have "\<forall>i<length columns. \<forall>f. ?p ! i = Some f \<longrightarrow>
       (is_date_column columns i \<longrightarrow> safe_iso (trimmed_or_null f) = Inr (r ! i)) \<and>
       (\<not> is_date_column columns i \<longrightarrow> r ! i = trimmed_or_null f)"
  proof (intro allI impI)
    fix i f assume i: "i < length columns" and f: "?p ! i = Some f"
    then have t: "?t ! i = trimmed_or_null f" by (simp add: length_padded)
    from a i len have "(i \<in> set (date_idx columns) \<longrightarrow> safe_iso (?t ! i) = Inr (r ! i)) \<and>
       (i \<notin> set (date_idx columns) \<longrightarrow> r ! i = ?t ! i)" by simp
    then show "(is_date_column columns i \<longrightarrow> safe_iso (trimmed_or_null f) = Inr (r ! i)) \<and>
       (\<not> is_date_column columns i \<longrightarrow> r ! i = trimmed_or_null f)"
      unfolding t date_idx_set by simp
  qed
  ultimately show ?thesis using r(2) len by auto
qed

lemma record_of_line_Inr_iff:
  "(\<exists>r. record_of_line sep_regex columns line = Inr r) \<longleftrightarrow>
     None \<notin> set (padded sep_regex columns line)"
  using record_of_line_returns[of sep_regex columns line]
    record_of_line_raises[of sep_regex columns line] by auto

lemma trimmed_or_null_empty: "strip f = [] \<Longrightarrow> trimmed_or_null f = NULL"
  by (simp add: trimmed_or_null_def)

lemma strip_blank:
  assumes "\<forall>c\<in>set f. isspace c"
  shows "strip f = []"
proof -
  from assms have d: "dropWhile isspace f = []" by (simp add: dropWhile_eq_Nil_conv)
  show ?thesis unfolding strip_def lstrip_def rstrip_def d by simp
qed

lemma pad_is_null:
  assumes "record_of_line sep_regex columns line = Inr r"
    and "padded sep_regex columns line ! i = Some f" "strip f = []" "i < length columns"
  shows "r ! i = NULL"
proof -
  from assms(1) have "None \<notin> set (padded sep_regex columns line)"
    using record_of_line_Inr_iff by blast
  from record_of_line_returns[OF this] assms(1) have
    "(is_date_column columns i \<longrightarrow> safe_iso (trimmed_or_null f) = Inr (r ! i)) \<and>
       (\<not> is_date_column columns i \<longrightarrow> r ! i = trimmed_or_null f)"
    using assms(2,4) by auto
  then show ?thesis
    unfolding trimmed_or_null_empty[OF assms(3)] safe_iso_NULL by auto
qed

lemma process_lines_lengths:
  assumes "\<forall>row\<in>set out. length row = length columns"
  shows "\<forall>row\<in>set (rows (process_lines sep_regex columns lines out)). length row = length columns"
  using assms
proof (induction lines arbitrary: out)
  case Nil
  then show ?case by simp
next
  case (Cons line rest)
  show ?case
  proof (cases "record_of_line sep_regex columns line")
    case (Inl e)
    with Cons.prems show ?thesis by simp
  next
    case (Inr r)
    then have "None \<notin> set (padded sep_regex columns line)"
      using record_of_line_Inr_iff by blast
    from record_of_line_returns[OF this] Inr have "length r = length columns" by auto
    with Cons.prems have "\<forall>row\<in>set (out @ [r]). length row = length columns" by simp
    from Cons.IH[OF this] Inr show ?thesis by simp
  qed
qed

lemma process_lines_in_order:
  assumes "\<forall>l\<in>set lines. None \<notin> set (padded sep_regex columns l)"
  shows "\<exists>rs. process_lines sep_regex columns lines out = \<lparr>rows = out @ rs, raised = None\<rparr> \<and>
    map Inr rs = map (record_of_line sep_regex columns) lines"
  using assms
proof (induction lines arbitrary: out)
  case Nil
  then show ?case by simp
next
  case (Cons line rest)
  then have "None \<notin> set (padded sep_regex columns line)" by simp
  from record_of_line_returns[OF this] obtain r
    where r: "record_of_line sep_regex columns line = Inr r" by blast
  from Cons.prems have "\<forall>l\<in>set rest. None \<notin> set (padded sep_regex columns l)" by simp
  from Cons.IH[OF this, of "out @ [r]"] obtain rs
    where rs: "process_lines sep_regex columns rest (out @ [r]) =
        \<lparr>rows = (out @ [r]) @ rs, raised = None\<rparr>"
      and m: "map Inr rs = map (record_of_line sep_regex columns) rest"
    by blast
  have "process_lines sep_regex columns (line # rest) out =
      \<lparr>rows = out @ (r # rs), raised = None\<rparr>"
    using r rs by simp
  moreover have "map Inr (r # rs) = map (record_of_line sep_regex columns) (line # rest)"
    using r m by simp
  ultimately show ?case by blast
qed

lemma process_rows_in_order:
  assumes "\<forall>l\<in>set lines. None \<notin> set (padded sep_regex columns l)"
  shows "\<exists>rs. process True sep_regex columns lines = \<lparr>rows = columns # rs, raised = None\<rparr> \<and>
    map Inr rs = map (record_of_line sep_regex columns) lines"
  using process_lines_in_order[OF assms, of "[columns]"] by (simp add: process_def)

text \<open>The end-to-end example of the specification.\<close>

lemma end_to_end_example:
  "process True (split_ws_literal CHR ''|'') [''id'', ''name'', ''birthday'']
     [''1|Alice|01.01.1990'' @ [CHR 0x0A], ''2|Bob|'']
   = \<lparr>rows = [[''id'', ''name'', ''birthday''], [''1'', ''Alice'', ''1990-01-01''],
              [''2'', ''Bob'', NULL]], raised = None\<rparr>"
  by code_simp

text \<open>
  A \<^verbatim>\<open>None\<close> among the fields kept ends the run at that line, as for the expression
  \<^verbatim>\<open>(,)|;\<close> on the line \<^verbatim>\<open>x;y\<close>, whose split is \<^verbatim>\<open>['x', None, 'y']\<close>.
\<close>

lemma process_unmatched_group:
  assumes "None \<in> set (padded sep_regex columns line)"
  shows "process True sep_regex columns (line # rest) =
    \<lparr>rows = [columns], raised = Some AttributeError\<rparr>"
  by (simp add: process_def record_of_line_raises[OF assms])

text \<open>
  Claim C1. Every record the transformer writes has as many fields as there are
  columns. When the split of the line gives fewer fields, the places after them hold
  the NULL sentinel; when it gives more, the record is that of the first N fields. The
  same count holds for every row of the output of a run. The body of the loop yields
  a record for a line exactly when none of the N fields kept is \<^verbatim>\<open>None\<close>, the value \<^verbatim>\<open>split\<close> gives for
  a capturing group that matched nothing; otherwise \<^verbatim>\<open>strip\<close> raises.
\<close>

theorem record_has_column_count:
  "(record_of_line sep_regex columns line = Inr r \<longrightarrow>
      length r = length columns \<and>
      (\<forall>i. length (sep_regex (rstrip_nl line)) \<le> i \<and> i < length columns \<longrightarrow> r ! i = NULL) \<and>
      record_of_line (\<lambda>s. take (length columns) (sep_regex s)) columns line = Inr r)
   \<and> (\<forall>row\<in>set (rows (process tq sep_regex columns lines)). length row = length columns)
   \<and> ((\<exists>r. record_of_line sep_regex columns line = Inr r) \<longleftrightarrow>
        None \<notin> set (padded sep_regex columns line))"
proof (intro conjI impI)
  assume r: "record_of_line sep_regex columns line = Inr r"
  then have n: "None \<notin> set (padded sep_regex columns line)"
    using record_of_line_Inr_iff by blast
  from record_of_line_returns[OF n] r show "length r = length columns" by auto
  show "\<forall>i. length (sep_regex (rstrip_nl line)) \<le> i \<and> i < length columns \<longrightarrow> r ! i = NULL"
  proof (intro allI impI)
    fix i assume i: "length (sep_regex (rstrip_nl line)) \<le> i \<and> i < length columns"
    then have "padded sep_regex columns line ! i = Some []" by (simp add: padded_pad)
    from pad_is_null[OF r this] i show "r ! i = NULL" by (simp add: strip_blank)
  qed
  have "padded (\<lambda>s. take (length columns) (sep_regex s)) columns line =
      padded sep_regex columns line"
    by (subst (2) padded_truncates) (simp add: padded_def)
  then show "record_of_line (\<lambda>s. take (length columns) (sep_regex s)) columns line = Inr r"
    using r by (simp add: record_of_line_padded)
next
  show "\<forall>row\<in>set (rows (process tq sep_regex columns lines)). length row = length columns"
    using process_lines_lengths[of "[columns]" columns sep_regex lines]
    by (cases tq) (simp_all add: process_def)
next
  show "(\<exists>r. record_of_line sep_regex columns line = Inr r) \<longleftrightarrow>
        None \<notin> set (padded sep_regex columns line)"
    by (rule record_of_line_Inr_iff)
qed

theorem record_has_column_count_witness:
  "record_of_line (split_ws_literal CHR ''|'') [''id'', ''name'', ''city''] ''7 | Ann''
     = Inr [''7'', ''Ann'', NULL]
   \<and> record_of_line (split_ws_literal CHR ''|'') [''id'', ''name''] ''7|Ann|Oslo|x''
     = Inr [''7'', ''Ann'']
   \<and> list_all (\<lambda>row. length row = 2)
       (rows (process True (split_ws_literal CHR ''|'') [''id'', ''name'']
          [''7|Ann|Oslo|x'' @ [CHR 0x0A], ''8'']))"
proof (intro conjI)
  let ?p = "split_ws_literal CHR ''|''"
  have a: "record_of_line ?p [''id'', ''name'', ''city''] ''7 | Ann'' = Inr [''7'', ''Ann'', NULL]"
    by code_simp
  from record_has_column_count[of ?p "[''id'', ''name'', ''city'']" "''7 | Ann''"
      "[''7'', ''Ann'', NULL]"] a
  have "length [''7'', ''Ann'', NULL] = length [''id'', ''name'', ''city'']" by blast
  with a show "record_of_line ?p [''id'', ''name'', ''city''] ''7 | Ann'' = Inr [''7'', ''Ann'', NULL]"
    by simp
  have b: "record_of_line ?p [''id'', ''name''] ''7|Ann|Oslo|x'' = Inr [''7'', ''Ann'']"
    by code_simp
  then show "record_of_line ?p [''id'', ''name''] ''7|Ann|Oslo|x'' = Inr [''7'', ''Ann'']" .
  from record_has_column_count[of ?p "[''id'', ''name'']" _ _ True
      "[''7|Ann|Oslo|x'' @ [CHR 0x0A], ''8'']"]
  show "list_all (\<lambda>row. length row = 2)
       (rows (process True ?p [''id'', ''name''] [''7|Ann|Oslo|x'' @ [CHR 0x0A], ''8'']))"
    by (simp add: list_all_iff)
qed



text \<open>
  Claim C10. The date normalizer maps the NULL sentinel to itself. Hence a field of a
  date column that is empty after trimming is written as the NULL sentinel. And the
  record of a blank line is N times the NULL sentinel, for every pattern: the strings
  a split returns are slices of the string it splits, so those of a blank line are
  blank.
\<close>

theorem empty_date_field_is_null:
  "safe_iso NULL = Inr NULL
   \<and> (record_of_line sep_regex columns line = Inr r \<and> is_date_column columns i \<and>
        padded sep_regex columns line ! i = Some f \<and> strip f = [] \<longrightarrow> r ! i = NULL)
   \<and> (blank line \<and>
        (\<forall>f. Some f \<in> set (sep_regex (rstrip_nl line)) \<longrightarrow> sublist f (rstrip_nl line)) \<and>
        None \<notin> set (padded sep_regex columns line)
        \<longrightarrow> record_of_line sep_regex columns line = Inr (replicate (length columns) NULL))"
proof (intro conjI impI)
  show "safe_iso NULL = Inr NULL" by (rule safe_iso_NULL)
next
  assume a: "record_of_line sep_regex columns line = Inr r \<and> is_date_column columns i \<and>
        padded sep_regex columns line ! i = Some f \<and> strip f = []"
  then have "i < length columns" by (simp add: is_date_column_def)
  with a pad_is_null[of sep_regex columns line r i f] show "r ! i = NULL" by blast
next
  assume a: "blank line \<and>
        (\<forall>f. Some f \<in> set (sep_regex (rstrip_nl line)) \<longrightarrow> sublist f (rstrip_nl line)) \<and>
        None \<notin> set (padded sep_regex columns line)"
  let ?p = "padded sep_regex columns line"
  from a have n: "None \<notin> set ?p" by blast
  from record_of_line_returns[OF n] obtain r
    where r: "record_of_line sep_regex columns line = Inr r" and len: "length r = length columns"
    by blast
  have sub: "set (rstrip_nl line) \<subseteq> set line"
    unfolding rstrip_nl_def using set_dropWhileD[of _ "\<lambda>c. c = CHR 0x0A" "rev line"] by auto
  have "r ! i = NULL" if i: "i < length columns" for i
  proof -
    from i have "?p ! i \<in> set ?p" by (simp add: length_padded)
    with n obtain f where f: "?p ! i = Some f" by (cases "?p ! i") auto
    have "\<forall>c\<in>set f. isspace c"
    proof (cases "i < length (sep_regex (rstrip_nl line))")
      case True
      with f i have "Some f \<in> set (sep_regex (rstrip_nl line))"
        by (metis padded_field nth_mem)
      with a have "sublist f (rstrip_nl line)" by blast
      then have "set f \<subseteq> set (rstrip_nl line)" by (rule set_mono_sublist)
      with sub a show ?thesis unfolding blank_def by blast
    next
      case False
      with i f have "f = []" by (simp add: padded_pad)
      then show ?thesis by simp
    qed
    then have "strip f = []" by (rule strip_blank)
    from pad_is_null[OF r f this i] show ?thesis .
  qed
  with len have "r = replicate (length columns) NULL"
    by (simp add: list_eq_iff_nth_eq)
  with r show "record_of_line sep_regex columns line = Inr (replicate (length columns) NULL)"
    by simp
qed

theorem empty_date_field_is_null_witness:
  "record_of_line (split_ws_literal CHR ''|'') [''id'', ''Date'', ''birthday''] ('' '' @ [CHR 0x0A])
     = Inr [NULL, NULL, NULL]
   \<and> (\<exists>r. record_of_line (split_ws_literal CHR ''|'') [''id'', ''Date''] ''7 | '' = Inr r
        \<and> r ! 1 = NULL)"
proof
  let ?p = "split_ws_literal CHR ''|''" and ?c = "[''id'', ''Date'', ''birthday'']"
    and ?l = "'' '' @ [CHR 0x0A]"
  have s: "?p (rstrip_nl ?l) = [Some '' '']" by code_simp
  have "blank ?l" by (simp add: blank_def isspace_def)
  moreover have "\<forall>f. Some f \<in> set (?p (rstrip_nl ?l)) \<longrightarrow> sublist f (rstrip_nl ?l)"
  proof -
    have "rstrip_nl ?l = '' ''" by code_simp
    then show ?thesis unfolding s by simp
  qed
  moreover have "None \<notin> set (padded ?p ?c ?l)" unfolding padded_def s by simp
  ultimately have "record_of_line ?p ?c ?l = Inr (replicate (length ?c) NULL)"
    using empty_date_field_is_null[of ?p ?c ?l] by blast
  then show "record_of_line ?p ?c ?l = Inr [NULL, NULL, NULL]"
    by (simp add: numeral_eq_Suc)
next
  let ?p = "split_ws_literal CHR ''|''" and ?c = "[''id'', ''Date'']" and ?l = "''7 | ''"
  have r: "record_of_line ?p ?c ?l = Inr [''7'', NULL]" by code_simp
  have "is_date_column ?c 1" by code_simp
  moreover have "padded ?p ?c ?l ! 1 = Some []" by code_simp
  moreover have "strip [] = []" by code_simp
  ultimately have "[''7'', NULL] ! 1 = NULL"
    using empty_date_field_is_null[of ?p ?c ?l "[''7'', NULL]" 1 "[]"] r by blast
  with r show "\<exists>r. record_of_line ?p ?c ?l = Inr r \<and> r ! 1 = NULL" by blast
qed

text \<open>
  Claim C8 fails when \<^verbatim>\<open>tqdm\<close> is not installed: the header is written, then entering
  the progress bar raises, and no line gets a record. With \<^verbatim>\<open>tqdm\<close> the same input gives
  the header and one record for each line, in the order of the lines.
\<close>

theorem process_without_tqdm:
  "process False (split_ws_literal CHR ''|'') [''id'', ''name''] [''1|Alice'' @ [CHR 0x0A], ''2|Bob'']
     = \<lparr>rows = [[''id'', ''name'']], raised = Some TypeError\<rparr>
   \<and> process True (split_ws_literal CHR ''|'') [''id'', ''name''] [''1|Alice'' @ [CHR 0x0A], ''2|Bob'']
     = \<lparr>rows = [[''id'', ''name''], [''1'', ''Alice''], [''2'', ''Bob'']], raised = None\<rparr>"
  by (simp add: process_def) code_simp

section \<open>Properties of the run\<close>

lemma process_lines_prefix:
  "\<exists>rs. rows (process_lines sep_regex columns lines out) = out @ rs \<and>
     map Inr rs = map (record_of_line sep_regex columns) (take (length rs) lines)"
proof (induction lines arbitrary: out)
  case Nil
  then show ?case by simp
next
  case (Cons line rest)
  show ?case
  proof (cases "record_of_line sep_regex columns line")
    case (Inl e)
    then show ?thesis by simp
  next
    case (Inr r)
    from Cons[of "out @ [r]"] obtain rs
      where rs: "rows (process_lines sep_regex columns rest (out @ [r])) = (out @ [r]) @ rs"
        and m: "map Inr rs = map (record_of_line sep_regex columns) (take (length rs) rest)"
      by blast
    have "rows (process_lines sep_regex columns (line # rest) out) = out @ (r # rs)"
      using Inr rs by simp
    moreover have "map Inr (r # rs) =
        map (record_of_line sep_regex columns) (take (length (r # rs)) (line # rest))"
      using Inr m by simp
    ultimately show ?thesis by blast
  qed
qed

lemma process_one_pattern:
  "\<exists>rs. rows (process tq sep_regex columns lines) = columns # rs \<and>
     map Inr rs = map (record_of_line sep_regex columns) (take (length rs) lines)"
proof (cases tq)
  case True
  with process_lines_prefix[of sep_regex columns lines "[columns]"] show ?thesis
    by (simp add: process_def)
next
  case False
  then show ?thesis by (simp add: process_def)
qed

lemma main_compiled_le: "compiled (main w p) \<le> 1"
  by (simp add: main_def stopped_def Let_def split: prod.splits sum.splits)

lemma main_cleanup: "written (main w p) \<noteq> None \<Longrightarrow> \<not> temp_exists (main w p)"
  by (auto simp: main_def stopped_def Let_def get_source_def
      split: prod.splits sum.splits if_splits)

text \<open>The run asks \<^verbatim>\<open>re.compile\<close> about one expression only.\<close>

lemma get_source_re_compile:
  "get_source (w\<lparr>re_compile := rc\<rparr>) p = get_source w p"
  by (simp add: get_source_def)

lemma main_one_expression:
  assumes "get_source w p = (Inr source, tmp)"
    and "bind (guess_separator (readline (src_lines source))) human_suggest = Inr suggestion"
    and "ask (Some suggestion) (stdin w) = (Inr sep_raw, answers)"
    and "rc (separator_expression sep_raw) = re_compile w (separator_expression sep_raw)"
  shows "main (w\<lparr>re_compile := rc\<rparr>) p = main w p"
  using assms
  by (simp add: main_def get_source_re_compile Let_def split: sum.splits prod.splits)

text \<open>
  Claim C9, amended. The expression the run compiles is the caller's separator
  expression between two \<^verbatim>\<open>\s*\<close>, not the caller's expression alone. If \<^verbatim>\<open>re.compile\<close>
  rejects that expression, its error ends the run: nothing is written, so no record is
  transformed and no other pattern takes its place. \<^verbatim>\<open>re.compile\<close> is called at most
  once in a run, and exactly once in a run that writes: every record written is the
  record of its line under the one pattern that call returned, and the run is the same
  whatever \<^verbatim>\<open>re.compile\<close> would make of any other expression.
\<close>

theorem uncompilable_separator_stops_run:
  "(get_source w p = (Inr source, tmp) \<and>
      bind (guess_separator (readline (src_lines source))) human_suggest = Inr suggestion \<and>
      ask (Some suggestion) (stdin w) = (Inr sep_raw, answers) \<and>
      re_compile w (separator_expression sep_raw) = Inl e
    \<longrightarrow> exception (main w p) = Some e \<and> written (main w p) = None \<and> compiled (main w p) = 1)
   \<and> compiled (main w p) \<le> 1
   \<and> (written (main w p) = Some out
    \<longrightarrow> (\<exists>source tmp suggestion sep_raw answers sep_regex columns rs.
          get_source w p = (Inr source, tmp) \<and>
          ask (Some suggestion) (stdin w) = (Inr sep_raw, answers) \<and>
          re_compile w (separator_expression sep_raw) = Inr sep_regex \<and>
          compiled (main w p) = 1 \<and> out = columns # rs \<and>
          map Inr rs = map (record_of_line sep_regex columns) (take (length rs) (src_lines source))))
   \<and> (get_source w p = (Inr source, tmp) \<and>
      bind (guess_separator (readline (src_lines source))) human_suggest = Inr suggestion \<and>
      ask (Some suggestion) (stdin w) = (Inr sep_raw, answers) \<and>
      rc (separator_expression sep_raw) = re_compile w (separator_expression sep_raw)
    \<longrightarrow> main (w\<lparr>re_compile := rc\<rparr>) p = main w p)"
proof (intro conjI impI)
  assume "get_source w p = (Inr source, tmp) \<and>
      bind (guess_separator (readline (src_lines source))) human_suggest = Inr suggestion \<and>
      ask (Some suggestion) (stdin w) = (Inr sep_raw, answers) \<and>
      rc (separator_expression sep_raw) = re_compile w (separator_expression sep_raw)"
  then show "main (w\<lparr>re_compile := rc\<rparr>) p = main w p"
    using main_one_expression[of w p source tmp suggestion sep_raw answers rc] by blast
next
  assume a: "get_source w p = (Inr source, tmp) \<and>
      bind (guess_separator (readline (src_lines source))) human_suggest = Inr suggestion \<and>
      ask (Some suggestion) (stdin w) = (Inr sep_raw, answers) \<and>
      re_compile w (separator_expression sep_raw) = Inl e"
  then have "main w p = stopped e tmp 1" by (simp add: main_def)
  then show "exception (main w p) = Some e" "written (main w p) = None" "compiled (main w p) = 1"
    by (simp_all add: stopped_def)
next
  show "compiled (main w p) \<le> 1" by (rule main_compiled_le)
next
  assume o: "written (main w p) = Some out"
  obtain src tmp where g: "get_source w p = (src, tmp)" by (cases "get_source w p")
  show "\<exists>source tmp suggestion sep_raw answers sep_regex columns rs.
          get_source w p = (Inr source, tmp) \<and>
          ask (Some suggestion) (stdin w) = (Inr sep_raw, answers) \<and>
          re_compile w (separator_expression sep_raw) = Inr sep_regex \<and>
          compiled (main w p) = 1 \<and> out = columns # rs \<and>
          map Inr rs = map (record_of_line sep_regex columns) (take (length rs) (src_lines source))"
  proof (cases src)
    case (Inl e)
    with o g show ?thesis by (simp add: main_def stopped_def)
  next
    case (Inr source)
    note s = this
    show ?thesis
    proof (cases "bind (guess_separator (readline (src_lines source))) human_suggest")
      case (Inl e)
      with o g s show ?thesis by (simp add: main_def stopped_def)
    next
      case (Inr suggestion)
      note h = this
      obtain a1 answers where k1: "ask (Some suggestion) (stdin w) = (a1, answers)"
        by (cases "ask (Some suggestion) (stdin w)")
      show ?thesis
      proof (cases a1)
        case (Inl e)
        with o g s h k1 show ?thesis by (simp add: main_def stopped_def)
      next
        case (Inr sep_raw)
        note k1' = this
        show ?thesis
        proof (cases "re_compile w (separator_expression sep_raw)")
          case (Inl e)
          with o g s h k1 k1' show ?thesis by (simp add: main_def stopped_def)
        next
          case (Inr sep_regex)
          note c = this
          obtain a2 rest where k2: "ask None answers = (a2, rest)"
            by (cases "ask None answers")
          show ?thesis
          proof (cases a2)
            case (Inl e)
            with o g s h k1 k1' c k2 show ?thesis by (simp add: main_def stopped_def)
          next
            case (Inr cols_raw)
            note k2' = this
            let ?columns = "parse_columns cols_raw"
            show ?thesis
            proof (cases "?columns = []")
              case True
              with o g s h k1 k1' c k2 k2' show ?thesis by (simp add: main_def stopped_def)
            next
              case False
              let ?r = "process (tqdm_installed w) sep_regex ?columns (src_lines source)"
              from False g s h k1 k1' c k2 k2' have m: "main w p =
                  \<lparr>exception = raised ?r, temp_exists = (if temporary source then False else tmp),
                   written = Some (rows ?r), compiled = 1\<rparr>"
                by (simp add: main_def Let_def)
              with o have out: "out = rows ?r" by simp
              from process_one_pattern[of "tqdm_installed w" sep_regex ?columns "src_lines source"]
              obtain rs where "rows ?r = ?columns # rs"
                "map Inr rs = map (record_of_line sep_regex ?columns) (take (length rs) (src_lines source))"
                by blast
              with out m g s k1 k1' c show ?thesis by auto
            qed
          qed
        qed
      qed
    qed
  qed
qed

theorem uncompilable_separator_stops_run_witness:
  "exception (main (example_world [''('', ''id,name'']) ''http://host/data.txt'') = Some PatternError
   \<and> written (main (example_world [''('', ''id,name'']) ''http://host/data.txt'') = None
   \<and> written (main (example_world ['''', ''id,name'']) ''http://host/data.txt'')
       = Some [[''id'', ''name''], [''1'', ''Alice''], [''2'', ''Bob'']]
   \<and> compiled (main (example_world ['''', ''id,name'']) ''http://host/data.txt'') = 1
   \<and> written (main ((example_world ['''', ''id,name''])
         \<lparr>re_compile := (\<lambda>e. if e = separator_expression [CHR 0x5C, CHR ''|'']
                              then Inr (split_ws_literal CHR ''|'') else Inr split_lazy_ws)\<rparr>)
        ''http://host/data.txt'')
       = Some [[''id'', ''name''], [''1'', ''Alice''], [''2'', ''Bob'']]"
proof -
  let ?w = "example_world [''('', ''id,name'']" and ?p = "''http://host/data.txt''"
  let ?src = "\<lparr>src_lines = [''1|Alice|01.01.1990'' @ [CHR 0x0A], ''2|Bob|''], temporary = True\<rparr>"
  have 1: "get_source ?w ?p = (Inr ?src, True)"
    by (simp add: get_source_def example_world_def)
  have 2: "bind (guess_separator (readline (src_lines ?src))) human_suggest
      = Inr [CHR 0x5C, CHR ''|'']"
    by code_simp
  have 3: "ask (Some [CHR 0x5C, CHR ''|'']) (stdin ?w) = (Inr ''('', [''id,name''])"
    by (simp add: example_world_def strip_def lstrip_def rstrip_def isspace_def)
  have 4: "re_compile ?w (separator_expression ''('') = Inl PatternError"
    by (simp add: example_world_def example_compile_def separator_expression_def)
  from uncompilable_separator_stops_run[of ?w ?p ?src True "[CHR 0x5C, CHR ''|'']" "''(''"
      "[''id,name'']" PatternError] 1 2 3 4
  have a: "exception (main ?w ?p) = Some PatternError \<and> written (main ?w ?p) = None" by blast
  have b: "written (main (example_world ['''', ''id,name'']) ?p)
       = Some [[''id'', ''name''], [''1'', ''Alice''], [''2'', ''Bob'']]"
    by code_simp
  from uncompilable_separator_stops_run[of "example_world ['''', ''id,name'']" ?p _ _ _ _ _ _
      "[[''id'', ''name''], [''1'', ''Alice''], [''2'', ''Bob'']]"] b
  have c: "compiled (main (example_world ['''', ''id,name'']) ?p) = 1" by blast
  let ?v = "example_world ['''', ''id,name'']"
  let ?rc = "\<lambda>e. if e = separator_expression [CHR 0x5C, CHR ''|'']
                   then Inr (split_ws_literal CHR ''|'') else Inr split_lazy_ws"
  have 5: "get_source ?v ?p = (Inr ?src, True)"
    by (simp add: get_source_def example_world_def)
  have 6: "ask (Some [CHR 0x5C, CHR ''|'']) (stdin ?v) = (Inr [CHR 0x5C, CHR ''|''], [''id,name''])"
    by (simp add: example_world_def strip_def lstrip_def rstrip_def)
  have 7: "?rc (separator_expression [CHR 0x5C, CHR ''|''])
      = re_compile ?v (separator_expression [CHR 0x5C, CHR ''|''])"
    by (simp add: example_world_def example_compile_def)
  from uncompilable_separator_stops_run[of ?v ?p ?src True "[CHR 0x5C, CHR ''|'']"
      "[CHR 0x5C, CHR ''|'']" "[''id,name'']" _ _ ?rc] 5 2 6 7
  have "main (?v\<lparr>re_compile := ?rc\<rparr>) ?p = main ?v ?p" by blast
  with b have d: "written (main (?v\<lparr>re_compile := ?rc\<rparr>) ?p)
       = Some [[''id'', ''name''], [''1'', ''Alice''], [''2'', ''Bob'']]" by simp
  from a b c d show ?thesis by blast
qed

text \<open>
  Claim C9 as it is worded fails for the answer \<^verbatim>\<open>?\<close>: \<^verbatim>\<open>re.compile\<close> rejects this
  expression, yet no error ends the run, for the run compiles \<^verbatim>\<open>\s*?\s*\<close>, which is
  valid, and writes a record for each line.
\<close>

theorem invalid_expression_accepted:
  "re_compile lazy_world ''?'' = Inl PatternError
   \<and> main lazy_world ''data.txt''
     = \<lparr>exception = None, temp_exists = False,
        written = Some [[''x'', ''y'', ''z''], [NULL, ''a'', NULL], [NULL, ''c'', NULL]],
        compiled = 1\<rparr>"
proof
  show "re_compile lazy_world ''?'' = Inl PatternError"
    by (simp add: lazy_world_def lazy_compile_def separator_expression_def)
  show "main lazy_world ''data.txt''
     = \<lparr>exception = None, temp_exists = False,
        written = Some [[''x'', ''y'', ''z''], [NULL, ''a'', NULL], [NULL, ''c'', NULL]],
        compiled = 1\<rparr>"
    by code_simp
qed

text \<open>
  Claim C2 fails on the paths that leave \<^verbatim>\<open>main\<close> before the \<^verbatim>\<open>try\<close>: with a remote
  source the temporary file is still there after a rejected separator expression, an
  empty list of columns, the end of the input at a prompt, and a failed download. It
  is removed on every path through \<^verbatim>\<open>_process\<close>.
\<close>

theorem temporary_file_left_behind:
  "main (example_world [''('', ''id,name'']) ''http://host/data.txt''
     = \<lparr>exception = Some PatternError, temp_exists = True, written = None, compiled = 1\<rparr>
   \<and> main (example_world ['''', '','']) ''http://host/data.txt''
     = \<lparr>exception = Some SystemExit, temp_exists = True, written = None, compiled = 1\<rparr>
   \<and> main (example_world []) ''http://host/data.txt''
     = \<lparr>exception = Some EOFError, temp_exists = True, written = None, compiled = 0\<rparr>
   \<and> main ((example_world ['''', ''id,name''])\<lparr>urlopen := (\<lambda>u. Inl OSError)\<rparr>) ''http://host/data.txt''
     = \<lparr>exception = Some OSError, temp_exists = True, written = None, compiled = 0\<rparr>
   \<and> temp_exists (main (example_world ['''', ''id,name'']) ''http://host/data.txt'') = False"
  by code_simp

end
